theory Spec2Isabelle
  imports Main "HOL-Library.Word"
begin

unbundle bit_operations_syntax

section \<open>JavaScript strings and numbers\<close>

text \<open>
  The translators of \<^verbatim>\<open>app/routes/home.tsx\<close> are pure functions on JavaScript
  strings. A JavaScript string is a sequence of 16-bit code units; a character outside
  the Basic Multilingual Plane is a surrogate pair, and a lone surrogate is a legal
  element of a string. Numbers that the code only uses as small integers (code points,
  char codes, the group size) are modelled as \<open>int\<close> or \<open>nat\<close>. The rotation shift is an
  integer of any size, and the sum that it enters is rounded as a double is.
\<close>

type_synonym jsstring = "16 word list"

text \<open>A string literal of the source whose characters are all ASCII.\<close>

definition str :: "string \<Rightarrow> jsstring" where
  "str s = map (\<lambda>c. of_nat (of_char c)) s"

text \<open>What a call can throw, and the result of a call that may throw.\<close>

datatype js_error = SyntaxError | URIError | RangeError | TypeError | InvalidCharacterError

datatype 'a outcome = Returns 'a | Throws js_error | Beyond_Fragment

text \<open>
  \<open>Beyond_Fragment\<close> is only produced by \<open>RegExp_new\<close> below: the pattern
  source is outside the part of the regular-expression grammar that this development
  interprets, and nothing is stated about the call.
\<close>

definition is_high :: "16 word \<Rightarrow> bool" where
  "is_high c = (0xD800 \<le> c \<and> c \<le> 0xDBFF)"

definition is_low :: "16 word \<Rightarrow> bool" where
  "is_low c = (0xDC00 \<le> c \<and> c \<le> 0xDFFF)"

text \<open>
  \<^verbatim>\<open>[...s]\<close>: the string iterator yields one string per code point, a surrogate pair
  as one element of two units and any other unit (a lone surrogate too) alone.
\<close>

fun spread :: "jsstring \<Rightarrow> jsstring list" where
  "spread [] = []"
| "spread [c] = [[c]]"
| "spread (c # d # cs) =
     (if is_high c \<and> is_low d then [c, d] # spread cs else [c] # spread (d # cs))"

text \<open>\<^verbatim>\<open>s.charCodeAt(i)\<close>; \<open>None\<close> is NaN, with which every comparison is false.\<close>

definition charCodeAt :: "jsstring \<Rightarrow> nat \<Rightarrow> int option" where
  "charCodeAt s i = (if i < length s then Some (uint (s ! i)) else None)"

text \<open>\<^verbatim>\<open>String.fromCharCode(n)\<close> for an integer \<open>n\<close>: the unit \<open>n mod 2^16\<close>.\<close>

definition fromCharCode :: "int \<Rightarrow> jsstring" where
  "fromCharCode n = [word_of_int n]"

text \<open>
  \<^verbatim>\<open>ch.codePointAt(0)!\<close> for an element \<open>ch\<close> of \<^verbatim>\<open>[...s]\<close>. Such an element is
  never empty (lemma \<open>spread_nonempty\<close> below), so the last equation, where JavaScript
  would give \<^verbatim>\<open>undefined\<close>, is never reached from the translators.
\<close>

fun codePointAt0 :: "jsstring \<Rightarrow> nat" where
  "codePointAt0 (c # d # cs) =
     (if is_high c \<and> is_low d
      then (unat c - 0xD800) * 0x400 + (unat d - 0xDC00) + 0x10000
      else unat c)"
| "codePointAt0 [c] = unat c"
| "codePointAt0 [] = 0"

text \<open>
  \<^verbatim>\<open>String.fromCodePoint(n)\<close> for a non-negative integer: a RangeError above
  \<open>0x10FFFF\<close>, one unit in the Basic Multilingual Plane (surrogate values included),
  a surrogate pair otherwise.
\<close>

definition fromCodePoint :: "nat \<Rightarrow> js_error + jsstring" where
  "fromCodePoint n =
     (if n > 0x10FFFF then Inl RangeError
      else if n \<le> 0xFFFF then Inr [of_nat n]
      else Inr [of_nat (0xD800 + (n - 0x10000) div 0x400), of_nat (0xDC00 + (n - 0x10000) mod 0x400)])"

text \<open>\<^verbatim>\<open>parts.join(sep)\<close> on an array of strings.\<close>

fun join :: "jsstring \<Rightarrow> jsstring list \<Rightarrow> jsstring" where
  "join sep [] = []"
| "join sep [p] = p"
| "join sep (p # q # ps) = p @ sep @ join sep (q # ps)"

text \<open>
  \<^verbatim>\<open>n.toString(radix)\<close> for a non-negative integer and a radix from 2 to 36 (the code
  uses 2 and 16): the digits, most significant first, letters in lower case.
\<close>

definition digit_char :: "nat \<Rightarrow> 16 word" where
  "digit_char d = (if d < 10 then of_nat (48 + d) else of_nat (87 + d))"

function toString_radix :: "nat \<Rightarrow> nat \<Rightarrow> jsstring" where
  "toString_radix r n =
     (if r < 2 \<or> n < r then [digit_char n]
      else toString_radix r (n div r) @ [digit_char (n mod r)])"
  by pat_completeness auto
termination
  by (relation "measure snd") auto

declare toString_radix.simps [simp del]

text \<open>\<^verbatim>\<open>s.padStart(n, "0")\<close>, and in general with a one-unit filler.\<close>

definition padStart :: "nat \<Rightarrow> 16 word \<Rightarrow> jsstring \<Rightarrow> jsstring" where
  "padStart n fill s = replicate (n - length s) fill @ s"

text \<open>
  \<^verbatim>\<open>s.toUpperCase()\<close>. On an ASCII unit it maps \<open>a\<close>-\<open>z\<close> to \<open>A\<close>-\<open>Z\<close> and fixes the
  rest. Beyond ASCII it applies the Unicode upper-case mapping code point by code point,
  a table of the host (one code point can become several, as U+00DF becomes \<open>SS\<close>);
  that table is the parameter \<open>uc\<close>.
\<close>

definition upper_ascii :: "16 word \<Rightarrow> 16 word" where
  "upper_ascii c = (if 97 \<le> c \<and> c \<le> 122 then c - 32 else c)"

definition upper_code_point :: "(nat \<Rightarrow> jsstring) \<Rightarrow> jsstring \<Rightarrow> jsstring" where
  "upper_code_point uc ch =
     (if codePointAt0 ch < 128 then map upper_ascii ch else uc (codePointAt0 ch))"

definition toUpperCase :: "(nat \<Rightarrow> jsstring) \<Rightarrow> jsstring \<Rightarrow> jsstring" where
  "toUpperCase uc s = concat (map (upper_code_point uc) (spread s))"

text \<open>\<^verbatim>\<open>toUpperCase\<close> on a string known to be ASCII, where no table is involved.\<close>

definition toUpperCase_ascii :: "jsstring \<Rightarrow> jsstring" where
  "toUpperCase_ascii s = map upper_ascii s"

text \<open>
  The remainder operator \<^verbatim>\<open>%\<close> on integers: the result has the sign of the dividend.
  (A zero divisor gives NaN in JavaScript; the code divides by constants only.)
\<close>

definition js_rem :: "int \<Rightarrow> int \<Rightarrow> int" where
  "js_rem a b = (if a < 0 then - ((- a) mod \<bar>b\<bar>) else a mod \<bar>b\<bar>)"

section \<open>ROT / Caesar\<close>

text \<open>
  JavaScript numbers are IEEE-754 doubles. Every integer of magnitude up to \<open>2^53\<close> is a
  double, and a sum within that range is exact. Beyond it the doubles are the multiples
  of a unit that doubles with each power of two (\<open>ulp\<close>), and the sum of two doubles is
  the double nearest to the exact sum, a tie going to the one whose multiple is even.
  \<open>round_double x\<close> is that double for an integer \<open>x\<close>. (The overflow to infinity,
  near \<open>2^1024\<close>, is not modelled.)
\<close>

function ulp :: "nat \<Rightarrow> nat" where
  "ulp n = (if n < 2 ^ 53 then 1 else 2 * ulp (n div 2))"
  by pat_completeness auto
termination
proof (relation "measure id")
  show "wf (measure id)" by simp
next
  fix n :: nat
  assume "\<not> n < 2 ^ 53"
  then have "0 < n" by (cases "n = 0") simp_all
  then have "n div 2 < n" by simp
  then show "(n div 2, n) \<in> measure id" by simp
qed

declare ulp.simps [simp del]

definition round_double :: "int \<Rightarrow> int" where
  "round_double x =
     (let n = nat \<bar>x\<bar>; u = ulp n; q = n div u; r = n mod u;
          m = (if 2 * r < u then q else if 2 * r > u then q + 1
               else if even q then q else q + 1)
      in sgn x * int (m * u))"

text \<open>
  \<^verbatim>\<open>
  function rot(text: string, shift: number) {
    const a = "a".charCodeAt(0); const z = "z".charCodeAt(0);
    const A = "A".charCodeAt(0); const Z = "Z".charCodeAt(0);
    const wrap = (code: number, start: number) =>
      ((((code - start + shift) % 26) + 26) % 26) + start;
    return [...text].map((ch) => {
        const c = ch.charCodeAt(0);
        if (c >= a && c <= z) return String.fromCharCode(wrap(c, a));
        if (c >= A && c <= Z) return String.fromCharCode(wrap(c, A));
        return ch;
      }).join("");
  }
  \<close>
  The shift is an integer that is a number value. In \<^verbatim>\<open>wrap\<close> the difference
  \<^verbatim>\<open>code - start\<close> is a small integer and exact; adding the shift is the one operation
  that can round. The remainder \<^verbatim>\<open>%\<close> of doubles is always exact, and the two further
  additions are on integers below 200.
\<close>

definition wrap :: "int \<Rightarrow> int \<Rightarrow> int \<Rightarrow> int" where
  "wrap shift code start =
     js_rem (js_rem (round_double (code - start + shift)) 26 + 26) 26 + start"

definition rot_char :: "int \<Rightarrow> jsstring \<Rightarrow> jsstring" where
  "rot_char shift ch =
     (let a = 97; z = 122; A = 65; Z = 90 in
      case charCodeAt ch 0 of
        None \<Rightarrow> ch
      | Some c \<Rightarrow>
          if c \<ge> a \<and> c \<le> z then fromCharCode (wrap shift c a)
          else if c \<ge> A \<and> c \<le> Z then fromCharCode (wrap shift c A)
          else ch)"

definition rot :: "jsstring \<Rightarrow> int \<Rightarrow> jsstring" where
  "rot text shift = concat (map (rot_char shift) (spread text))"

text \<open>The ASCII letter ranges, for stating what \<open>rot\<close> does to each unit.\<close>

definition is_lower :: "16 word \<Rightarrow> bool" where
  "is_lower c = (97 \<le> c \<and> c \<le> 122)"

definition is_upper :: "16 word \<Rightarrow> bool" where
  "is_upper c = (65 \<le> c \<and> c \<le> 90)"

definition rot_unit :: "int \<Rightarrow> 16 word \<Rightarrow> 16 word" where
  "rot_unit s c =
     (if is_lower c then word_of_int (97 + round_double (uint c - 97 + s) mod 26)
      else if is_upper c then word_of_int (65 + round_double (uint c - 65 + s) mod 26)
      else c)"

section \<open>Whitespace, trimming and splitting\<close>

text \<open>
  The class \<^verbatim>\<open>\s\<close> of a regular expression and the units that \<^verbatim>\<open>trim()\<close> strips are
  the same set: the white space and line terminator code points of ECMAScript.
\<close>

definition is_space :: "16 word \<Rightarrow> bool" where
  "is_space c = ((0x9 \<le> c \<and> c \<le> 0xD) \<or> c = 0x20 \<or> c = 0xA0 \<or> c = 0x1680 \<or>
     (0x2000 \<le> c \<and> c \<le> 0x200A) \<or> c = 0x2028 \<or> c = 0x2029 \<or> c = 0x202F \<or>
     c = 0x205F \<or> c = 0x3000 \<or> c = 0xFEFF)"

definition trim :: "jsstring \<Rightarrow> jsstring" where
  "trim s = rev (dropWhile is_space (rev (dropWhile is_space s)))"

text \<open>\<^verbatim>\<open>s.split(sep)\<close> for a separator of one unit (the code splits on \<^verbatim>\<open>" "\<close>).\<close>

fun split_unit :: "16 word \<Rightarrow> jsstring \<Rightarrow> jsstring list" where
  "split_unit sep [] = [[]]"
| "split_unit sep (c # cs) =
     (if c = sep then [] # split_unit sep cs
      else (case split_unit sep cs of p # ps \<Rightarrow> (c # p) # ps | [] \<Rightarrow> [[c]]))"

section \<open>UTF-8: TextEncoder and TextDecoder\<close>

text \<open>
  \<^verbatim>\<open>new TextEncoder().encode(text)\<close>: the string is first read as scalar values, a lone
  surrogate becoming U+FFFD, and each scalar value is written in UTF-8.
\<close>

definition scalar_of_unit :: "16 word \<Rightarrow> nat" where
  "scalar_of_unit c = (if is_high c \<or> is_low c then 0xFFFD else unat c)"

fun scalar_values :: "jsstring \<Rightarrow> nat list" where
  "scalar_values [] = []"
| "scalar_values [c] = [scalar_of_unit c]"
| "scalar_values (c # d # cs) =
     (if is_high c \<and> is_low d then codePointAt0 [c, d] # scalar_values cs
      else scalar_of_unit c # scalar_values (d # cs))"

definition utf8_bytes :: "nat \<Rightarrow> 8 word list" where
  "utf8_bytes cp =
     (if cp < 0x80 then [of_nat cp]
      else if cp < 0x800 then [of_nat (0xC0 + cp div 0x40), of_nat (0x80 + cp mod 0x40)]
      else if cp < 0x10000 then
        [of_nat (0xE0 + cp div 0x1000), of_nat (0x80 + cp div 0x40 mod 0x40),
         of_nat (0x80 + cp mod 0x40)]
      else
        [of_nat (0xF0 + cp div 0x40000), of_nat (0x80 + cp div 0x1000 mod 0x40),
         of_nat (0x80 + cp div 0x40 mod 0x40), of_nat (0x80 + cp mod 0x40)])"

definition TextEncoder_encode :: "jsstring \<Rightarrow> 8 word list" where
  "TextEncoder_encode text = concat (map utf8_bytes (scalar_values text))"

text \<open>
  The UTF-8 decoder of the Encoding Standard, which \<^verbatim>\<open>TextDecoder\<close> runs. Its state is
  the code point under construction, the number of continuation bytes needed and seen,
  and the bounds of the next continuation byte. It emits \<open>Some\<close> scalar value, or
  \<open>None\<close> for a decoding error; after an error inside a sequence the offending byte is
  read again from the initial state.
\<close>

function utf8_decoder ::
  "nat \<Rightarrow> nat \<Rightarrow> nat \<Rightarrow> 8 word \<Rightarrow> 8 word \<Rightarrow> 8 word list \<Rightarrow> nat option list" where
  "utf8_decoder cp needed seen lo hi [] = (if needed \<noteq> 0 then [None] else [])"
| "utf8_decoder cp needed seen lo hi (b # bs) =
     (if needed = 0 then
        (if b \<le> 0x7F then Some (unat b) # utf8_decoder 0 0 0 0x80 0xBF bs
         else if 0xC2 \<le> b \<and> b \<le> 0xDF then
           utf8_decoder (unat (b AND 0x1F)) 1 0 0x80 0xBF bs
         else if 0xE0 \<le> b \<and> b \<le> 0xEF then
           utf8_decoder (unat (b AND 0xF)) 2 0
             (if b = 0xE0 then 0xA0 else 0x80) (if b = 0xED then 0x9F else 0xBF) bs
         else if 0xF0 \<le> b \<and> b \<le> 0xF4 then
           utf8_decoder (unat (b AND 0x7)) 3 0
             (if b = 0xF0 then 0x90 else 0x80) (if b = 0xF4 then 0x8F else 0xBF) bs
         else None # utf8_decoder 0 0 0 0x80 0xBF bs)
      else if \<not> (lo \<le> b \<and> b \<le> hi) then
        None # utf8_decoder 0 0 0 0x80 0xBF (b # bs)
      else
        (let cp' = cp * 0x40 + unat (b AND 0x3F) in
         if seen + 1 \<noteq> needed then utf8_decoder cp' needed (seen + 1) 0x80 0xBF bs
         else Some cp' # utf8_decoder 0 0 0 0x80 0xBF bs))"
  by pat_completeness auto
termination
  by (relation "measure (\<lambda>(cp, needed, seen, lo, hi, bs).
        2 * length bs + (if needed = 0 then 0 else 1))") auto

text \<open>The UTF-16 form of a code point (\<^verbatim>\<open>UTF16EncodeCodePoint\<close>).\<close>

definition utf16_units :: "nat \<Rightarrow> jsstring" where
  "utf16_units n =
     (if n \<le> 0xFFFF then [of_nat n]
      else [of_nat (0xD800 + (n - 0x10000) div 0x400), of_nat (0xDC00 + (n - 0x10000) mod 0x400)])"

text \<open>
  \<^verbatim>\<open>new TextDecoder(label, {fatal, ignoreBOM}).decode(bytes)\<close> for UTF-8. With
  \<^verbatim>\<open>fatal\<close> a decoding error throws a TypeError; without it the error becomes U+FFFD.
  Unless \<^verbatim>\<open>ignoreBOM\<close> is set, a leading U+FEFF is left out of the result. The code
  calls \<^verbatim>\<open>new TextDecoder()\<close>, where both options are false.
\<close>

definition TextDecoder_decode :: "bool \<Rightarrow> bool \<Rightarrow> 8 word list \<Rightarrow> js_error + jsstring" where
  "TextDecoder_decode fatal ignoreBOM bytes =
     (let items = utf8_decoder 0 0 0 0x80 0xBF bytes in
      if fatal \<and> None \<in> set items then Inl TypeError
      else
        (let scalars = map (\<lambda>x. case x of None \<Rightarrow> 0xFFFD | Some v \<Rightarrow> v) items;
             kept = (case scalars of v # vs \<Rightarrow> if \<not> ignoreBOM \<and> v = 0xFEFF then vs else scalars
                     | [] \<Rightarrow> [])
         in Inr (concat (map utf16_units kept))))"

section \<open>Regular expressions built from a delimiter\<close>

text \<open>
  \<^verbatim>\<open>textToHex\<close> builds \<^verbatim>\<open>new RegExp(`${delimiter}+$`)\<close> from the delimiter as it is.
  The part of the pattern grammar interpreted here: a sequence of terms, each a pattern
  character (any unit that is not one of \<^verbatim>\<open>^ $ \ . * + ? ( ) [ ] { } |\<close>) or the wildcard
  \<^verbatim>\<open>.\<close>, optionally followed by the greedy quantifier \<^verbatim>\<open>+\<close>, or the assertion \<^verbatim>\<open>$\<close>.
  A quantifier with nothing to repeat is a SyntaxError. Any other source is answered
  with \<open>Beyond_Fragment\<close>.
\<close>

datatype atom = Lit "16 word" | Dot

datatype piece = One atom | Many atom | End

definition is_syntax_char :: "16 word \<Rightarrow> bool" where
  "is_syntax_char c = (c \<in> set [0x5E, 0x24, 0x5C, 0x2E, 0x2A, 0x2B, 0x3F, 0x28, 0x29,
     0x5B, 0x5D, 0x7B, 0x7D, 0x7C])"

definition is_quantifier_start :: "16 word \<Rightarrow> bool" where
  "is_quantifier_start c = (c = 0x2A \<or> c = 0x2B \<or> c = 0x3F)"

fun cons_piece :: "piece \<Rightarrow> piece list outcome \<Rightarrow> piece list outcome" where
  "cons_piece p (Returns ps) = Returns (p # ps)"
| "cons_piece p (Throws e) = Throws e"
| "cons_piece p Beyond_Fragment = Beyond_Fragment"

definition atom_of :: "16 word \<Rightarrow> atom" where
  "atom_of c = (if c = 0x2E then Dot else Lit c)"

fun RegExp_new :: "jsstring \<Rightarrow> piece list outcome" where
  "RegExp_new [] = Returns []"
| "RegExp_new (c # cs) =
     (if c = 0x24 then
        (case cs of
           [] \<Rightarrow> Returns [End]
         | q # _ \<Rightarrow>
             if is_quantifier_start q then Throws SyntaxError
             else if q = 0x7B then Beyond_Fragment
             else cons_piece End (RegExp_new cs))
      else if is_quantifier_start c then Throws SyntaxError
      else if c = 0x2E \<or> \<not> is_syntax_char c then
        (case cs of
           [] \<Rightarrow> Returns [One (atom_of c)]
         | q # rest \<Rightarrow>
             if q = 0x2B then
               (case rest of
                  [] \<Rightarrow> Returns [Many (atom_of c)]
                | q2 # _ \<Rightarrow>
                    if q2 = 0x2A \<or> q2 = 0x2B then Throws SyntaxError
                    else if q2 = 0x3F \<or> q2 = 0x7B then Beyond_Fragment
                    else cons_piece (Many (atom_of c)) (RegExp_new rest))
             else if q = 0x2A \<or> q = 0x3F \<or> q = 0x7B then Beyond_Fragment
             else cons_piece (One (atom_of c)) (RegExp_new cs))
      else Beyond_Fragment)"

definition is_line_terminator :: "16 word \<Rightarrow> bool" where
  "is_line_terminator c = (c = 0xA \<or> c = 0xD \<or> c = 0x2028 \<or> c = 0x2029)"

fun match_atom :: "atom \<Rightarrow> 16 word \<Rightarrow> bool" where
  "match_atom (Lit a) c = (a = c)"
| "match_atom Dot c = (\<not> is_line_terminator c)"

text \<open>
  Matching a compiled pattern at the start of \<open>s\<close>: the rest of the string after the
  match, or \<open>None\<close>. A quantified atom takes as many units as it can and gives them
  back one at a time while the rest of the pattern fails.
\<close>

fun match_pieces :: "piece list \<Rightarrow> jsstring \<Rightarrow> jsstring option"
  and match_more :: "atom \<Rightarrow> piece list \<Rightarrow> jsstring \<Rightarrow> jsstring option" where
  "match_pieces [] s = Some s"
| "match_pieces (End # ps) s = (if s = [] then match_pieces ps s else None)"
| "match_pieces (One a # ps) [] = None"
| "match_pieces (One a # ps) (c # cs) = (if match_atom a c then match_pieces ps cs else None)"
| "match_pieces (Many a # ps) [] = None"
| "match_pieces (Many a # ps) (c # cs) = (if match_atom a c then match_more a ps cs else None)"
| "match_more a ps [] = match_pieces ps []"
| "match_more a ps (c # cs) =
     (if match_atom a c
      then (case match_more a ps cs of Some r \<Rightarrow> Some r | None \<Rightarrow> match_pieces ps (c # cs))
      else match_pieces ps (c # cs))"

text \<open>
  \<^verbatim>\<open>s.replace(re, repl)\<close> for a pattern without the global flag and a replacement
  without \<^verbatim>\<open>$\<close>: the leftmost match is replaced, and \<open>s\<close> is returned when there is none.
\<close>

fun replace_first :: "piece list \<Rightarrow> jsstring \<Rightarrow> jsstring \<Rightarrow> jsstring" where
  "replace_first ps repl [] = (case match_pieces ps [] of Some r \<Rightarrow> repl @ r | None \<Rightarrow> [])"
| "replace_first ps repl (c # cs) =
     (case match_pieces ps (c # cs) of
        Some r \<Rightarrow> repl @ r
      | None \<Rightarrow> c # replace_first ps repl cs)"

section \<open>Binary and Hex\<close>

fun hex_parts :: "jsstring \<Rightarrow> bool \<Rightarrow> int \<Rightarrow> nat \<Rightarrow> 8 word list \<Rightarrow> jsstring list" where
  "hex_parts delimiter upper bytesPerGroup i [] = []"
| "hex_parts delimiter upper bytesPerGroup i (b # bs) =
     (let hex = padStart 2 0x30 (toString_radix 16 (unat b)) in
      (if upper then toUpperCase_ascii hex else hex) #
      (if bytesPerGroup > 1 \<and> js_rem (int i + 1) bytesPerGroup = 0 then [delimiter] else []) @
      hex_parts delimiter upper bytesPerGroup (i + 1) bs)"

definition textToHex :: "jsstring \<Rightarrow> jsstring \<Rightarrow> bool \<Rightarrow> int \<Rightarrow> jsstring outcome" where
  "textToHex text delimiter upper bytesPerGroup =
     (let bytes = TextEncoder_encode text;
          parts = hex_parts delimiter upper bytesPerGroup 0 bytes
      in case RegExp_new (delimiter @ str ''+$'') of
           Returns re \<Rightarrow> Returns (replace_first re [] (join delimiter parts))
         | Throws e \<Rightarrow> Throws e
         | Beyond_Fragment \<Rightarrow> Beyond_Fragment)"


text \<open>
  \<^verbatim>\<open>parseInt(s, radix)\<close> on a non-empty string of digits of that radix, without sign,
  prefix or white space, which is what the two decoders pass. The value is exact here; the
  code only compares it with bounds that are themselves exact.
\<close>

definition digit_value :: "16 word \<Rightarrow> nat" where
  "digit_value c =
     (if 0x30 \<le> c \<and> c \<le> 0x39 then unat c - 0x30
      else if 0x61 \<le> c \<and> c \<le> 0x7A then unat c - 0x57
      else unat c - 0x37)"

definition parseInt_digits :: "nat \<Rightarrow> jsstring \<Rightarrow> nat" where
  "parseInt_digits radix s = foldl (\<lambda>acc c. acc * radix + digit_value c) 0 s"

definition is_hex_digit :: "16 word \<Rightarrow> bool" where
  "is_hex_digit c = ((0x30 \<le> c \<and> c \<le> 0x39) \<or> (0x61 \<le> c \<and> c \<le> 0x66) \<or> (0x41 \<le> c \<and> c \<le> 0x46))"

fun hex_pairs :: "jsstring \<Rightarrow> 8 word list" where
  "hex_pairs (a # b # cs) = of_nat (parseInt_digits 16 [a, b]) # hex_pairs cs"
| "hex_pairs cs = []"

definition hexToText :: "jsstring \<Rightarrow> jsstring" where
  "hexToText hex =
     (let cleaned = filter is_hex_digit hex in
      if length cleaned mod 2 \<noteq> 0 then str ''Invalid hex length''
      else
        (let bytes = hex_pairs cleaned in
         case TextDecoder_decode False False bytes of
           Inr text \<Rightarrow> text
         | Inl e \<Rightarrow> str ''Invalid hex sequence''))"

definition textToBinary ::
  "(nat \<Rightarrow> jsstring) \<Rightarrow> jsstring \<Rightarrow> int \<Rightarrow> jsstring \<Rightarrow> bool \<Rightarrow> jsstring" where
  "textToBinary uc text groupSize delimiter upper =
     (let bits = map (\<lambda>ch.
            let code = codePointAt0 ch;
                bin = toString_radix 2 code;
                padded = (if groupSize > 0
                          then padStart (nat ((int (length bin) + groupSize - 1) div groupSize * groupSize))
                                 0x30 bin
                          else bin)
            in padded) (spread text);
          out = join delimiter bits
      in if upper then toUpperCase uc out else out)"

text \<open>\<^verbatim>\<open>s.replace(/\s+/g, " ")\<close>: every maximal run of white space becomes one space.\<close>

function collapse_spaces :: "jsstring \<Rightarrow> jsstring" where
  "collapse_spaces [] = []"
| "collapse_spaces (c # cs) =
     (if is_space c then 0x20 # collapse_spaces (dropWhile is_space cs)
      else c # collapse_spaces cs)"
  by pat_completeness auto
termination
  by (relation "measure length") (auto simp: length_dropWhile_le less_Suc_eq_le)

text \<open>A \<^verbatim>\<open>map\<close> whose callback may throw: the first error ends it.\<close>

fun map_throwing :: "('a \<Rightarrow> js_error + 'b) \<Rightarrow> 'a list \<Rightarrow> js_error + 'b list" where
  "map_throwing f [] = Inr []"
| "map_throwing f (x # xs) =
     (case f x of
        Inl e \<Rightarrow> Inl e
      | Inr y \<Rightarrow> (case map_throwing f xs of Inl e \<Rightarrow> Inl e | Inr ys \<Rightarrow> Inr (y # ys)))"

definition binaryToText :: "jsstring \<Rightarrow> jsstring" where
  "binaryToText binary =
     (let cleaned = collapse_spaces
            (map (\<lambda>c. if c = 0x30 \<or> c = 0x31 \<or> is_space c then c else 0x20) (trim binary))
      in if cleaned = [] then []
         else
           (let bytes = filter (\<lambda>b. b \<noteq> []) (split_unit 0x20 cleaned) in
            case map_throwing (\<lambda>b. fromCodePoint (parseInt_digits 2 b)) bytes of
              Inr chars \<Rightarrow> join [] chars
            | Inl e \<Rightarrow> str ''Invalid binary sequence''))"

section \<open>Unicode inspector\<close>

record codepoint_record =
  ch :: jsstring
  dec :: nat
  hex :: jsstring

definition inspectUnicode :: "jsstring \<Rightarrow> codepoint_record list" where
  "inspectUnicode s =
     map (\<lambda>c. let cp = codePointAt0 c;
                   h = str ''U+'' @ padStart 4 0x30 (toUpperCase_ascii (toString_radix 16 cp))
               in \<lparr>ch = c, dec = cp, hex = h\<rparr>) (spread s)"

section \<open>URL\<close>

text \<open>
  \<^verbatim>\<open>encodeURIComponent(s)\<close>: an unreserved unit is copied; any other code point is
  written as the \<^verbatim>\<open>%XX\<close> escapes of its UTF-8 bytes, and a lone surrogate throws a
  URIError.
\<close>

definition uri_unreserved :: "16 word \<Rightarrow> bool" where
  "uri_unreserved c = ((0x41 \<le> c \<and> c \<le> 0x5A) \<or> (0x61 \<le> c \<and> c \<le> 0x7A) \<or> (0x30 \<le> c \<and> c \<le> 0x39) \<or>
     c \<in> set (str ''-_.!~*'' @ [0x27] @ str ''()''))"

definition percent_byte :: "8 word \<Rightarrow> jsstring" where
  "percent_byte b = 0x25 # toUpperCase_ascii (padStart 2 0x30 (toString_radix 16 (unat b)))"

fun encodeURIComponent :: "jsstring \<Rightarrow> js_error + jsstring" where
  "encodeURIComponent [] = Inr []"
| "encodeURIComponent (c # cs) =
     (if uri_unreserved c then
        (case encodeURIComponent cs of Inl e \<Rightarrow> Inl e | Inr r \<Rightarrow> Inr (c # r))
      else if is_low c then Inl URIError
      else if is_high c then
        (case cs of
           [] \<Rightarrow> Inl URIError
         | d # ds \<Rightarrow>
             if is_low d then
               (case encodeURIComponent ds of
                  Inl e \<Rightarrow> Inl e
                | Inr r \<Rightarrow> Inr (concat (map percent_byte (utf8_bytes (codePointAt0 [c, d]))) @ r))
             else Inl URIError)
      else
        (case encodeURIComponent cs of
           Inl e \<Rightarrow> Inl e
         | Inr r \<Rightarrow> Inr (concat (map percent_byte (utf8_bytes (unat c))) @ r)))"

text \<open>\<^verbatim>\<open>const urlEncode = (s: string) => encodeURIComponent(s);\<close>\<close>

definition urlEncode :: "jsstring \<Rightarrow> jsstring outcome" where
  "urlEncode s = (case encodeURIComponent s of Inl e \<Rightarrow> Throws e | Inr r \<Rightarrow> Returns r)"

section \<open>Morse\<close>

text \<open>The table \<^verbatim>\<open>MORSE\<close>, in the order of the source.\<close>

definition MORSE :: "(jsstring \<times> jsstring) list" where
  "MORSE = map (\<lambda>(k, v). (str k, str v))
     [(''A'', ''.-''), (''B'', ''-...''), (''C'', ''-.-.''), (''D'', ''-..''), (''E'', ''.''),
      (''F'', ''..-.''), (''G'', ''--.''), (''H'', ''....''), (''I'', ''..''), (''J'', ''.---''),
      (''K'', ''-.-''), (''L'', ''.-..''), (''M'', ''--''), (''N'', ''-.''), (''O'', ''---''),
      (''P'', ''.--.''), (''Q'', ''--.-''), (''R'', ''.-.''), (''S'', ''...''), (''T'', ''-''),
      (''U'', ''..-''), (''V'', ''...-''), (''W'', ''.--''), (''X'', ''-..-''), (''Y'', ''-.--''),
      (''Z'', ''--..''),
      (''0'', ''-----''), (''1'', ''.----''), (''2'', ''..---''), (''3'', ''...--''),
      (''4'', ''....-''), (''5'', ''.....''), (''6'', ''-....''), (''7'', ''--...''),
      (''8'', ''---..''), (''9'', ''----.''),
      (''.'', ''.-.-.-''), ('','', ''--..--''), (''?'', ''..--..''), ([CHR 0x27], ''.----.''),
      (''!'', ''-.-.--''), (''/'', ''-..-.''), (''('', ''-.--.''), ('')'', ''-.--.-''),
      (''&'', ''.-...''), ('':'', ''---...''), ('';'', ''-.-.-.''), (''='', ''-...-''),
      (''+'', ''.-.-.''), (''-'', ''-....-''), (''_'', ''..--.-''), ([CHR 0x22], ''.-..-.''),
      (''$'', ''...-..-''), (''@'', ''.--.-.'')]"

text \<open>
  \<^verbatim>\<open>REVMORSE = Object.fromEntries(Object.entries(MORSE).map(([k, v]) => [v, k]))\<close>:
  the entries with key and value exchanged; were a key to occur twice, the later entry
  would win.
\<close>

definition REVMORSE :: "(jsstring \<times> jsstring) list" where
  "REVMORSE = rev (map (\<lambda>(k, v). (v, k)) MORSE)"

text \<open>
  Reading a property of a plain object also finds what \<^verbatim>\<open>Object.prototype\<close> provides.
  Each of these names has seven units or more, so \<^verbatim>\<open>MORSE[ch]\<close>, whose key is one code
  point, never meets them and is a plain lookup in the table; \<^verbatim>\<open>REVMORSE[sym]\<close> can
  meet them. The value found is then an object or a function, which is truthy, and the
  text that \<^verbatim>\<open>join\<close> makes of it belongs to the host: the parameter \<open>proto_text\<close> of
  \<open>fromMorse\<close>. \<open>v8_proto_text\<close> is what the V8 engine prints.
\<close>

definition object_prototype_names :: "jsstring list" where
  "object_prototype_names = map str
     [''constructor'', ''__defineGetter__'', ''__defineSetter__'', ''hasOwnProperty'',
      ''__lookupGetter__'', ''__lookupSetter__'', ''isPrototypeOf'', ''propertyIsEnumerable'',
      ''toString'', ''valueOf'', ''__proto__'', ''toLocaleString'']"

datatype property = Own jsstring | Inherited | Undefined

definition get_property :: "(jsstring \<times> jsstring) list \<Rightarrow> jsstring \<Rightarrow> property" where
  "get_property obj key =
     (case map_of obj key of
        Some v \<Rightarrow> Own v
      | None \<Rightarrow> if key \<in> set object_prototype_names then Inherited else Undefined)"

definition v8_proto_text :: "jsstring \<Rightarrow> jsstring" where
  "v8_proto_text name =
     (if name = str ''__proto__'' then str ''[object Object]''
      else str ''function '' @ (if name = str ''constructor'' then str ''Object'' else name) @
           str ''() { [native code] }'')"

text \<open>
  \<^verbatim>\<open>
  function toMorse(text, letterSep, wordSep, keepUnknown = false) {
    return text.toUpperCase().split(" ")
      .map((word) => [...word]
          .map((ch) => { const code = MORSE[ch];
                         if (!code) return keepUnknown ? ch : "";
                         return code; })
          .filter((s) => s !== "")
          .join(letterSep))
      .join(wordSep);
  }
  \<close>
\<close>

definition toMorse ::
  "(nat \<Rightarrow> jsstring) \<Rightarrow> jsstring \<Rightarrow> jsstring \<Rightarrow> jsstring \<Rightarrow> bool \<Rightarrow> jsstring" where
  "toMorse uc text letterSep wordSep keepUnknown =
     join wordSep
       (map (\<lambda>word.
          join letterSep
            (filter (\<lambda>s. s \<noteq> [])
               (map (\<lambda>c. case map_of MORSE c of
                             None \<Rightarrow> if keepUnknown then c else []
                           | Some code \<Rightarrow> code)
                  (spread word))))
          (split_unit 0x20 (toUpperCase uc text)))"

text \<open>The three replacements and the \<^verbatim>\<open>trim\<close> of \<^verbatim>\<open>normalizePunctuation\<close>.\<close>

definition normalizePunctuation :: "jsstring \<Rightarrow> jsstring" where
  "normalizePunctuation s =
     trim
       (filter (\<lambda>c. c \<notin> set [0x200B, 0x200C, 0x200D, 0xFEFF])
          (map (\<lambda>c. if c \<in> set [0xB7, 0x2022, 0x2219] then 0x2E else c)
             (map (\<lambda>c. if c \<in> set [0x2013, 0x2014, 0x2212] then 0x2D else c) s)))"

text \<open>
  \<^verbatim>\<open>esc = (s) => s.replace(/[.*+?^${}()|[\]\\]/g, "\\$&")\<close>: a backslash before each of
  the fourteen syntax characters.
\<close>

definition esc :: "jsstring \<Rightarrow> jsstring" where
  "esc s = concat (map (\<lambda>c. if is_syntax_char c then [0x5C, c] else [c]) s)"

text \<open>
  The two splitters are made by \<^verbatim>\<open>new RegExp\<close> from fixed alternatives and the escaped
  separators. An alternative is a literal, \<^verbatim>\<open>\s*/\s*\<close>, or \<^verbatim>\<open>\s{n,}\<close>. The literal is
  what a pattern source of pattern characters and escaped syntax characters denotes:
  \<open>pattern_literal\<close> reads such a source, and it is only applied to results of \<open>esc\<close>.
\<close>

datatype alternative = Literal jsstring | Slash_Padded | Spaces_From nat

fun pattern_literal :: "jsstring \<Rightarrow> jsstring" where
  "pattern_literal [] = []"
| "pattern_literal [c] = [c]"
| "pattern_literal (c # d # cs) =
     (if c = 0x5C then d # pattern_literal cs else c # pattern_literal (d # cs))"

text \<open>The length of the match of an alternative at the start of \<open>s\<close>, if it matches there.\<close>

fun match_alternative :: "alternative \<Rightarrow> jsstring \<Rightarrow> nat option" where
  "match_alternative (Literal l) s = (if take (length l) s = l then Some (length l) else None)"
| "match_alternative Slash_Padded s =
     (case dropWhile is_space s of
        [] \<Rightarrow> None
      | c # r \<Rightarrow>
          if c = 0x2F
          then Some (length (takeWhile is_space s) + 1 + length (takeWhile is_space r))
          else None)"
| "match_alternative (Spaces_From n) s =
     (let k = length (takeWhile is_space s) in if k \<ge> n then Some k else None)"

text \<open>An alternation takes the first alternative that matches.\<close>

fun match_first :: "alternative list \<Rightarrow> jsstring \<Rightarrow> nat option" where
  "match_first [] s = None"
| "match_first (a # as) s =
     (case match_alternative a s of Some n \<Rightarrow> Some n | None \<Rightarrow> match_first as s)"

text \<open>
  \<^verbatim>\<open>s.split(re)\<close> for a pattern without capture groups. From the position \<open>q\<close> the
  pattern is tried at \<open>q\<close> only; a failure, or a match that ends at the start \<open>p\<close> of
  the current piece, moves \<open>q\<close> on by one unit; any other match closes the piece and
  the search goes on after the match. Here \<open>piece\<close> is the text from \<open>p\<close> to \<open>q\<close>
  and the last argument is the text from \<open>q\<close> on. The empty string is split into no
  piece when the pattern matches it, and into one empty piece otherwise.
\<close>

function split_loop :: "alternative list \<Rightarrow> jsstring \<Rightarrow> jsstring \<Rightarrow> jsstring list" where
  "split_loop re piece [] = [piece]"
| "split_loop re piece (c # cs) =
     (case match_first re (c # cs) of
        None \<Rightarrow> split_loop re (piece @ [c]) cs
      | Some n \<Rightarrow>
          if n = 0 \<and> piece = [] then split_loop re (piece @ [c]) cs
          else piece # split_loop re [] (drop n (c # cs)))"
  by pat_completeness auto
termination
  by (relation "measure (\<lambda>(re, piece, s). 2 * length s + (if piece = [] then 0 else 1))") auto

definition split_regex :: "alternative list \<Rightarrow> jsstring \<Rightarrow> jsstring list" where
  "split_regex re s =
     (if s = [] then (if match_first re [] \<noteq> None then [] else [[]])
      else split_loop re [] s)"

text \<open>
  \<^verbatim>\<open>
  function fromMorse(code, letterSep, wordSep, strict = false) {
    const cleaned = normalizePunctuation(code);
    const wsep = wordSep ? esc(wordSep) : "";
    const lsep = letterSep ? esc(letterSep) : "";
    const wordSplitter = new RegExp(
      [wsep && `(?:${wsep})`, "(?:\\s*/\\s*)", "(?:\\s{3,})"].filter(Boolean).join("|"), "g");
    const words = cleaned.split(wordSplitter).filter((w) => w.length > 0);
    const letterSplitter = new RegExp(lsep ? lsep : "\\s+", "g");
    const decodedWords = words.map((w) =>
      w.split(letterSplitter).filter((sym) => sym.length > 0)
        .map((sym) => { const t = REVMORSE[sym];
                        if (!t) return strict ? "\uFFFD" : "";
                        return t; })
        .join(""));
    return decodedWords.join(" ");
  }
  \<close>
\<close>

definition fromMorse ::
  "(jsstring \<Rightarrow> jsstring) \<Rightarrow> jsstring \<Rightarrow> jsstring \<Rightarrow> jsstring \<Rightarrow> bool \<Rightarrow> jsstring" where
  "fromMorse proto_text code letterSep wordSep strict =
     (let cleaned = normalizePunctuation code;
          wsep = (if wordSep \<noteq> [] then esc wordSep else []);
          lsep = (if letterSep \<noteq> [] then esc letterSep else []);
          wordSplitter = (if wsep \<noteq> [] then [Literal (pattern_literal wsep)] else []) @
                         [Slash_Padded, Spaces_From 3];
          words = filter (\<lambda>w. length w > 0) (split_regex wordSplitter cleaned);
          letterSplitter = (if lsep \<noteq> [] then [Literal (pattern_literal lsep)] else [Spaces_From 1]);
          decodedWords = map (\<lambda>w.
              join []
                (map (\<lambda>sym. case get_property REVMORSE sym of
                                Own t \<Rightarrow> t
                              | Inherited \<Rightarrow> proto_text sym
                              | Undefined \<Rightarrow> if strict then [0xFFFD] else [])
                   (filter (\<lambda>sym. length sym > 0) (split_regex letterSplitter w))))
            words
      in join (str '' '') decodedWords)"

section \<open>Base64 and URL decoding\<close>

text \<open>
  Reading \<open>n\<close> hexadecimal digits at the start of a string: their value and the rest.
\<close>

definition take_hex :: "nat \<Rightarrow> jsstring \<Rightarrow> (nat \<times> jsstring) option" where
  "take_hex n s =
     (if n \<le> length s \<and> list_all is_hex_digit (take n s)
      then Some (parseInt_digits 16 (take n s), drop n s) else None)"

text \<open>
  \<^verbatim>\<open>unescape(s)\<close>: \<^verbatim>\<open>%uXXXX\<close> and \<^verbatim>\<open>%XX\<close> become the unit of that value; a
  \<^verbatim>\<open>%\<close> that starts neither is copied.
\<close>

function unescape :: "jsstring \<Rightarrow> jsstring" where
  "unescape [] = []"
| "unescape (c # cs) =
     (if c = 0x25 then
        (case (case cs of [] \<Rightarrow> None | u # r \<Rightarrow> if u = 0x75 then take_hex 4 r else None) of
           Some (v, rest) \<Rightarrow> of_nat v # unescape rest
         | None \<Rightarrow>
             (case take_hex 2 cs of
                Some (v, rest) \<Rightarrow> of_nat v # unescape rest
              | None \<Rightarrow> c # unescape cs))
      else c # unescape cs)"
  by pat_completeness auto
termination
  by (relation "measure length") (auto simp: take_hex_def split: list.splits if_splits)

text \<open>
  \<^verbatim>\<open>escape(s)\<close>: letters, digits and \<^verbatim>\<open>@*_+-./\<close> are copied, another unit below 256
  becomes \<^verbatim>\<open>%XX\<close> and any other \<^verbatim>\<open>%uXXXX\<close>, in upper-case digits.
\<close>

definition escape_unreserved :: "16 word \<Rightarrow> bool" where
  "escape_unreserved c = ((0x41 \<le> c \<and> c \<le> 0x5A) \<or> (0x61 \<le> c \<and> c \<le> 0x7A) \<or> (0x30 \<le> c \<and> c \<le> 0x39) \<or>
     c \<in> set (str ''@*_+-./''))"

definition escape_unit :: "16 word \<Rightarrow> jsstring" where
  "escape_unit c =
     (if escape_unreserved c then [c]
      else if c < 0x100 then
        0x25 # toUpperCase_ascii (padStart 2 0x30 (toString_radix 16 (unat c)))
      else
        0x25 # 0x75 # toUpperCase_ascii (padStart 4 0x30 (toString_radix 16 (unat c))))"

definition escape :: "jsstring \<Rightarrow> jsstring" where
  "escape s = concat (map escape_unit s)"

text \<open>
  \<^verbatim>\<open>btoa(data)\<close>: an InvalidCharacterError when a unit is above 255; otherwise the
  units are bytes and are written in the Base64 alphabet, padded with \<^verbatim>\<open>=\<close>.
\<close>

definition base64_char :: "nat \<Rightarrow> 16 word" where
  "base64_char v =
     (if v < 26 then of_nat (0x41 + v)
      else if v < 52 then of_nat (0x61 + (v - 26))
      else if v < 62 then of_nat (0x30 + (v - 52))
      else if v = 62 then 0x2B else 0x2F)"

fun base64_encode :: "nat list \<Rightarrow> jsstring" where
  "base64_encode (a # b # c # rest) =
     [base64_char (a div 4), base64_char (a mod 4 * 16 + b div 16),
      base64_char (b mod 16 * 4 + c div 64), base64_char (c mod 64)] @ base64_encode rest"
| "base64_encode [a, b] =
     [base64_char (a div 4), base64_char (a mod 4 * 16 + b div 16), base64_char (b mod 16 * 4), 0x3D]"
| "base64_encode [a] = [base64_char (a div 4), base64_char (a mod 4 * 16), 0x3D, 0x3D]"
| "base64_encode [] = []"

definition btoa :: "jsstring \<Rightarrow> js_error + jsstring" where
  "btoa data =
     (if list_ex (\<lambda>c. c > 0xFF) data then Inl InvalidCharacterError
      else Inr (base64_encode (map unat data)))"

text \<open>
  \<^verbatim>\<open>atob(data)\<close>, the forgiving Base64 decoding: ASCII white space is removed; one or
  two final \<^verbatim>\<open>=\<close> are removed when the length is a multiple of four; a length of one
  more than a multiple of four, or a unit outside the alphabet, is an
  InvalidCharacterError; the six-bit values are then packed into bytes, the spare bits
  of a last group of two or three being dropped.
\<close>

definition is_ascii_whitespace :: "16 word \<Rightarrow> bool" where
  "is_ascii_whitespace c = (c = 0x9 \<or> c = 0xA \<or> c = 0xC \<or> c = 0xD \<or> c = 0x20)"

definition is_base64_char :: "16 word \<Rightarrow> bool" where
  "is_base64_char c = ((0x41 \<le> c \<and> c \<le> 0x5A) \<or> (0x61 \<le> c \<and> c \<le> 0x7A) \<or> (0x30 \<le> c \<and> c \<le> 0x39) \<or>
     c = 0x2B \<or> c = 0x2F)"

definition base64_value :: "16 word \<Rightarrow> nat" where
  "base64_value c =
     (if 0x41 \<le> c \<and> c \<le> 0x5A then unat c - 0x41
      else if 0x61 \<le> c \<and> c \<le> 0x7A then unat c - 0x61 + 26
      else if 0x30 \<le> c \<and> c \<le> 0x39 then unat c - 0x30 + 52
      else if c = 0x2B then 62 else 63)"

fun base64_decode :: "nat list \<Rightarrow> nat list" where
  "base64_decode (a # b # c # d # rest) =
     [a * 4 + b div 16, b mod 16 * 16 + c div 4, c mod 4 * 64 + d] @ base64_decode rest"
| "base64_decode [a, b, c] = [a * 4 + b div 16, b mod 16 * 16 + c div 4]"
| "base64_decode [a, b] = [a * 4 + b div 16]"
| "base64_decode rest = []"

definition strip_padding :: "jsstring \<Rightarrow> jsstring" where
  "strip_padding s =
     (if length s mod 4 = 0 then
        (case rev s of
           p # q # r \<Rightarrow> if p = 0x3D then (if q = 0x3D then rev r else rev (q # r)) else s
         | _ \<Rightarrow> s)
      else s)"

definition atob :: "jsstring \<Rightarrow> js_error + jsstring" where
  "atob data =
     (let d = strip_padding (filter (\<lambda>c. \<not> is_ascii_whitespace c) data) in
      if length d mod 4 = 1 then Inl InvalidCharacterError
      else if list_ex (\<lambda>c. \<not> is_base64_char c) d then Inl InvalidCharacterError
      else Inr (map of_nat (base64_decode (map base64_value d))))"

text \<open>
  \<^verbatim>\<open>decodeURIComponent(s)\<close>. A unit other than \<^verbatim>\<open>%\<close> is copied. A \<^verbatim>\<open>%\<close> must start
  an escape \<^verbatim>\<open>%XX\<close>; the number of leading one bits of that byte says how many bytes the
  code point has, the further bytes must be escapes too, and all of them must be the
  UTF-8 form of one code point. Anything else throws a URIError.
\<close>

definition leading_ones :: "nat \<Rightarrow> nat" where
  "leading_ones b =
     (if b < 0x80 then 0 else if b < 0xC0 then 1 else if b < 0xE0 then 2
      else if b < 0xF0 then 3 else if b < 0xF8 then 4 else 5)"

text \<open>The values of \<open>n\<close> escapes \<^verbatim>\<open>%XX\<close> at the start of a string, if they are there.\<close>

fun escape_values :: "nat \<Rightarrow> jsstring \<Rightarrow> nat list option" where
  "escape_values 0 s = Some []"
| "escape_values (Suc n) [] = None"
| "escape_values (Suc n) (c # cs) =
     (if c \<noteq> 0x25 then None
      else
        (case take_hex 2 cs of
           None \<Rightarrow> None
         | Some (v, rest) \<Rightarrow>
             (case escape_values n rest of None \<Rightarrow> None | Some vs \<Rightarrow> Some (v # vs))))"

function decodeURIComponent :: "jsstring \<Rightarrow> js_error + jsstring" where
  "decodeURIComponent [] = Inr []"
| "decodeURIComponent (c # cs) =
     (if c \<noteq> 0x25 then
        (case decodeURIComponent cs of Inl e \<Rightarrow> Inl e | Inr r \<Rightarrow> Inr (c # r))
      else
        (case take_hex 2 cs of
           None \<Rightarrow> Inl URIError
         | Some (b, rest) \<Rightarrow>
             (let n = leading_ones b in
              if n = 0 then
                (case decodeURIComponent rest of Inl e \<Rightarrow> Inl e | Inr r \<Rightarrow> Inr (of_nat b # r))
              else if n = 1 \<or> n > 4 then Inl URIError
              else
                (case escape_values (n - 1) rest of
                   None \<Rightarrow> Inl URIError
                 | Some octets \<Rightarrow>
                     (case utf8_decoder 0 0 0 0x80 0xBF (map of_nat (b # octets)) of
                        [Some v] \<Rightarrow>
                          (case decodeURIComponent (drop (3 * (n - 1)) rest) of
                             Inl e \<Rightarrow> Inl e
                           | Inr r \<Rightarrow> Inr (utf16_units v @ r))
                      | _ \<Rightarrow> Inl URIError)))))"
  by pat_completeness auto
termination
  by (relation "measure length") (auto simp: take_hex_def split: if_splits)

text \<open>
  \<^verbatim>\<open>
  function textToBase64(text) {
    try { return btoa(unescape(encodeURIComponent(text))); } catch { return "Encoding error"; } }
  function base64ToText(b64) {
    try { return decodeURIComponent(escape(atob(b64))); } catch { return "Invalid Base64"; } }
  const urlDecode = (s) => {
    try { return decodeURIComponent(s); } catch { return "Invalid URL encoding"; } };
  \<close>
\<close>

definition textToBase64 :: "jsstring \<Rightarrow> jsstring" where
  "textToBase64 text =
     (case encodeURIComponent text of
        Inl e \<Rightarrow> str ''Encoding error''
      | Inr enc \<Rightarrow>
          (case btoa (unescape enc) of
             Inl e \<Rightarrow> str ''Encoding error''
           | Inr r \<Rightarrow> r))"

definition base64ToText :: "jsstring \<Rightarrow> jsstring" where
  "base64ToText b64 =
     (case atob b64 of
        Inl e \<Rightarrow> str ''Invalid Base64''
      | Inr bin \<Rightarrow>
          (case decodeURIComponent (escape bin) of
             Inl e \<Rightarrow> str ''Invalid Base64''
           | Inr r \<Rightarrow> r))"

definition urlDecode :: "jsstring \<Rightarrow> jsstring" where
  "urlDecode s =
     (case decodeURIComponent s of
        Inl e \<Rightarrow> str ''Invalid URL encoding''
      | Inr r \<Rightarrow> r)"

section \<open>Properties of the rotation cipher\<close>

lemma js_rem_26: "js_rem x 26 mod 26 = x mod 26" "- 26 < js_rem x 26" "js_rem x 26 < 26"
proof -
  show "js_rem x 26 mod 26 = x mod 26"
  proof (cases "x < 0")
    case True
    then have "js_rem x 26 = - ((- x) mod 26)" by (simp add: js_rem_def)
    then show ?thesis by (simp add: mod_minus_eq)
  next
    case False
    then show ?thesis by (simp add: js_rem_def)
  qed
  have b: "(- x) mod 26 < 26" "0 \<le> x mod 26" "0 \<le> (- x) mod 26" "x mod 26 < 26" by simp_all
  from b show "- 26 < js_rem x 26" unfolding js_rem_def by (simp; linarith)
  from b show "js_rem x 26 < 26" unfolding js_rem_def by (simp; linarith)
qed

lemma wrap_mod: "wrap s c st = round_double (c - st + s) mod 26 + st"
proof -
  let ?r = "js_rem (round_double (c - st + s)) 26"
  have pos: "\<not> ?r + 26 < 0" using js_rem_26(2)[of "round_double (c - st + s)"] by simp
  have "js_rem (?r + 26) 26 = (?r + 26) mod 26" using pos by (simp add: js_rem_def)
  also have "\<dots> = ?r mod 26" by simp
  also have "\<dots> = round_double (c - st + s) mod 26" by (rule js_rem_26(1))
  finally show ?thesis by (simp add: wrap_def)
qed

text \<open>Where the double arithmetic is exact.\<close>

lemma ulp_small: "n < 2 ^ 53 \<Longrightarrow> ulp n = 1"
  by (subst ulp.simps) simp

lemma ulp_at_limit: "ulp 9007199254740992 = 2" "ulp 9007199254740993 = 2"
  by (subst ulp.simps, simp add: ulp_small)+

lemma sgn_times_abs: "sgn x * \<bar>x\<bar> = (x::int)"
  by (simp add: mult_sgn_abs)

lemma round_double_exact:
  assumes "\<bar>x\<bar> \<le> 2 ^ 53"
  shows "round_double x = x"
proof (cases "\<bar>x\<bar> < 2 ^ 53")
  case True
  then have "nat \<bar>x\<bar> < 2 ^ 53" by simp
  then have "ulp (nat \<bar>x\<bar>) = 1" by (rule ulp_small)
  then show ?thesis by (simp add: round_double_def Let_def sgn_times_abs)
next
  case False
  with assms have a: "\<bar>x\<bar> = 9007199254740992" by simp
  then have n: "nat \<bar>x\<bar> = 9007199254740992" by simp
  have "round_double x = sgn x * 9007199254740992"
    unfolding round_double_def Let_def n by (simp add: ulp_at_limit)
  also have "\<dots> = sgn x * \<bar>x\<bar>" using a by simp
  finally show ?thesis by (simp add: sgn_times_abs)
qed

lemma round_double_past_limit: "round_double 9007199254740993 = 9007199254740992"
  by (simp add: round_double_def Let_def ulp_at_limit)

lemma shifted_exact:
  "- (2 ^ 53) \<le> s \<Longrightarrow> s \<le> 2 ^ 53 - 25 \<Longrightarrow> 0 \<le> d \<Longrightarrow> d \<le> 25 \<Longrightarrow>
   round_double (d + s) = d + s"
  by (rule round_double_exact) (simp add: abs_le_iff)

lemma uint_16_bounds: "0 \<le> uint (c::16 word)" "uint (c::16 word) < 65536"
  using uint_lt2p[of c] by simp_all

lemma is_lower_uint: "is_lower c \<longleftrightarrow> 97 \<le> uint c \<and> uint c \<le> 122"
  by (simp add: is_lower_def word_le_def)

lemma is_upper_uint: "is_upper c \<longleftrightarrow> 65 \<le> uint c \<and> uint c \<le> 90"
  by (simp add: is_upper_def word_le_def)

lemma is_high_uint: "is_high c \<longleftrightarrow> 0xD800 \<le> uint c \<and> uint c \<le> 0xDBFF"
  by (simp add: is_high_def word_le_def)

lemma is_low_uint: "is_low c \<longleftrightarrow> 0xDC00 \<le> uint c \<and> uint c \<le> 0xDFFF"
  by (simp add: is_low_def word_le_def)

lemma rot_char_single: "rot_char s [c] = [rot_unit s c]"
  by (auto simp: rot_char_def rot_unit_def charCodeAt_def fromCharCode_def wrap_mod
      is_lower_uint is_upper_uint Let_def add.commute)

lemma rot_char_pair: "is_high c \<Longrightarrow> is_low d \<Longrightarrow> rot_char s [c, d] = [rot_unit s c, rot_unit s d]"
  by (auto simp: rot_char_def rot_unit_def charCodeAt_def fromCharCode_def
      is_lower_uint is_upper_uint is_high_uint is_low_uint Let_def)

text \<open>\<open>rot\<close> works unit by unit: a surrogate pair is no letter and is copied.\<close>

lemma rot_map: "rot t s = map (rot_unit s) t"
  unfolding rot_def
  by (induction t rule: spread.induct) (simp_all add: rot_char_single rot_char_pair)

lemma uint_word_of_int_small: "0 \<le> n \<Longrightarrow> n < 65536 \<Longrightarrow> uint (word_of_int n :: 16 word) = n"
  by (simp add: uint_word_of_int take_bit_int_eq_self)

lemma rot_unit_lower:
  "is_lower c \<Longrightarrow>
   is_lower (rot_unit s c) \<and> uint (rot_unit s c) = 97 + round_double (uint c - 97 + s) mod 26"
proof -
  assume l: "is_lower c"
  let ?m = "round_double (uint c - 97 + s) mod 26"
  have b: "0 \<le> ?m" "?m < 26" by simp_all
  have "uint (word_of_int (97 + ?m) :: 16 word) = 97 + ?m"
    using b by (intro uint_word_of_int_small) linarith+
  then show ?thesis using l b by (simp add: rot_unit_def is_lower_uint)
qed

lemma rot_unit_upper:
  "is_upper c \<Longrightarrow>
   is_upper (rot_unit s c) \<and> uint (rot_unit s c) = 65 + round_double (uint c - 65 + s) mod 26"
proof -
  assume l: "is_upper c"
  have nl: "\<not> is_lower c" using l by (simp add: is_lower_uint is_upper_uint)
  let ?m = "round_double (uint c - 65 + s) mod 26"
  have b: "0 \<le> ?m" "?m < 26" by simp_all
  have "uint (word_of_int (65 + ?m) :: 16 word) = 65 + ?m"
    using b by (intro uint_word_of_int_small) linarith+
  then show ?thesis using l nl b by (simp add: rot_unit_def is_upper_uint)
qed

lemma rot_unit_other: "\<not> is_lower c \<Longrightarrow> \<not> is_upper c \<Longrightarrow> rot_unit s c = c"
  by (simp add: rot_unit_def)

lemma rot_unit_lower_exact:
  assumes "- (2 ^ 53) \<le> s" "s \<le> 2 ^ 53 - 25" "is_lower c"
  shows "is_lower (rot_unit s c)" "uint (rot_unit s c) = 97 + (uint c - 97 + s) mod 26"
proof -
  have "0 \<le> uint c - 97" "uint c - 97 \<le> 25" using assms(3) by (simp_all add: is_lower_uint)
  then have "round_double (uint c - 97 + s) = uint c - 97 + s"
    using assms(1,2) by (intro shifted_exact)
  with rot_unit_lower[OF assms(3), of s]
  show "is_lower (rot_unit s c)" "uint (rot_unit s c) = 97 + (uint c - 97 + s) mod 26"
    by simp_all
qed

lemma rot_unit_upper_exact:
  assumes "- (2 ^ 53) \<le> s" "s \<le> 2 ^ 53 - 25" "is_upper c"
  shows "is_upper (rot_unit s c)" "uint (rot_unit s c) = 65 + (uint c - 65 + s) mod 26"
proof -
  have "0 \<le> uint c - 65" "uint c - 65 \<le> 25" using assms(3) by (simp_all add: is_upper_uint)
  then have "round_double (uint c - 65 + s) = uint c - 65 + s"
    using assms(1,2) by (intro shifted_exact)
  with rot_unit_upper[OF assms(3), of s]
  show "is_upper (rot_unit s c)" "uint (rot_unit s c) = 65 + (uint c - 65 + s) mod 26"
    by simp_all
qed

lemma rot_unit_inverse:
  assumes s: "- (2 ^ 53) \<le> s" "s \<le> 2 ^ 53 - 25"
    and s': "- (2 ^ 53) \<le> s'" "s' \<le> 2 ^ 53 - 25"
    and m: "(s + s') mod 26 = 0"
  shows "rot_unit s' (rot_unit s c) = c"
proof -
  consider (l) "is_lower c" | (u) "is_upper c" "\<not> is_lower c" | (o) "\<not> is_lower c" "\<not> is_upper c" by blast
  then show ?thesis
  proof cases
    case l
    let ?d = "rot_unit s c"
    note d = rot_unit_lower_exact[OF s l]
    have "uint (rot_unit s' ?d) = 97 + (uint ?d - 97 + s') mod 26"
      by (rule rot_unit_lower_exact(2)[OF s' d(1)])
    also have "\<dots> = 97 + ((uint c - 97 + s) mod 26 + s') mod 26" using d(2) by simp
    also have "\<dots> = 97 + (uint c - 97 + (s + s')) mod 26" by (simp add: mod_add_left_eq add.assoc)
    also have "\<dots> = 97 + (uint c - 97) mod 26" using m by (metis add.right_neutral mod_add_right_eq)
    also have "\<dots> = uint c" using l by (simp add: is_lower_uint)
    finally show ?thesis by (rule word_uint_eqI)
  next
    case u
    let ?d = "rot_unit s c"
    note d = rot_unit_upper_exact[OF s u(1)]
    have "uint (rot_unit s' ?d) = 65 + (uint ?d - 65 + s') mod 26"
      by (rule rot_unit_upper_exact(2)[OF s' d(1)])
    also have "\<dots> = 65 + ((uint c - 65 + s) mod 26 + s') mod 26" using d(2) by simp
    also have "\<dots> = 65 + (uint c - 65 + (s + s')) mod 26" by (simp add: mod_add_left_eq add.assoc)
    also have "\<dots> = 65 + (uint c - 65) mod 26" using m by (metis add.right_neutral mod_add_right_eq)
    also have "\<dots> = uint c" using u by (simp add: is_upper_uint)
    finally show ?thesis by (rule word_uint_eqI)
  next
    case o
    then show ?thesis by (simp add: rot_unit_def)
  qed
qed

lemma rot_unit_zero: "rot_unit 0 c = c"
proof -
  consider (l) "is_lower c" | (u) "is_upper c" "\<not> is_lower c" | (o) "\<not> is_lower c" "\<not> is_upper c" by blast
  then show ?thesis
  proof cases
    case l
    have "uint (rot_unit 0 c) = 97 + (uint c - 97 + 0) mod 26"
      by (rule rot_unit_lower_exact(2)[OF _ _ l]) simp_all
    also have "\<dots> = uint c" using l by (simp add: is_lower_uint)
    finally show ?thesis by (rule word_uint_eqI)
  next
    case u
    have "uint (rot_unit 0 c) = 65 + (uint c - 65 + 0) mod 26"
      by (rule rot_unit_upper_exact(2)[OF _ _ u(1)]) simp_all
    also have "\<dots> = uint c" using u by (simp add: is_upper_uint)
    finally show ?thesis by (rule word_uint_eqI)
  next
    case o
    then show ?thesis by (simp add: rot_unit_def)
  qed
qed

lemma rot_inverse_gen:
  "- (2 ^ 53) \<le> s \<Longrightarrow> s \<le> 2 ^ 53 - 25 \<Longrightarrow> - (2 ^ 53) \<le> s' \<Longrightarrow> s' \<le> 2 ^ 53 - 25 \<Longrightarrow>
   (s + s') mod 26 = 0 \<Longrightarrow> rot (rot t s) s' = t"
  by (simp add: rot_map rot_unit_inverse map_idI)

text \<open>
  C8, amended. For every text \<open>t\<close> and every integer shift \<open>s\<close> with
  \<open>-2^53 \<le> s \<le> 2^53 - 25\<close>, for which every sum that \<open>wrap\<close> forms is exact: rotating by
  \<open>s\<close> and then by \<open>26 - (s mod 26)\<close> gives \<open>t\<close> back (with \<open>mod\<close> read as the mathematical
  residue or as the remainder operator of the source), a lowercase ASCII letter becomes the
  lowercase letter \<open>s\<close> places further round \<open>a\<close>-\<open>z\<close>, and an uppercase one likewise within
  \<open>A\<close>-\<open>Z\<close>. Shift 0 is the identity; shift 13 applied twice is the identity. For every
  integer shift at all, the result has the length of the input, a lowercase ASCII letter
  becomes a lowercase ASCII letter, an uppercase one an uppercase one, and every other code
  unit is unchanged.
\<close>

theorem rot_inverse_in_exact_range:
  "(- (2 ^ 53) \<le> s \<and> s \<le> 2 ^ 53 - 25 \<longrightarrow>
      rot (rot t s) (26 - s mod 26) = t \<and> rot (rot t s) (26 - js_rem s 26) = t \<and>
      (\<forall>i<length t.
         (is_lower (t ! i) \<longrightarrow> uint (rot t s ! i) = 97 + (uint (t ! i) - 97 + s) mod 26) \<and>
         (is_upper (t ! i) \<longrightarrow> uint (rot t s ! i) = 65 + (uint (t ! i) - 65 + s) mod 26))) \<and>
   rot t 0 = t \<and> rot (rot t 13) 13 = t \<and>
   length (rot t s) = length t \<and>
   (\<forall>i<length t.
      (is_lower (t ! i) \<longrightarrow> is_lower (rot t s ! i)) \<and>
      (is_upper (t ! i) \<longrightarrow> is_upper (rot t s ! i)) \<and>
      (\<not> is_lower (t ! i) \<and> \<not> is_upper (t ! i) \<longrightarrow> rot t s ! i = t ! i))"
proof -
  have a: "rot (rot t s) (26 - s mod 26) = t \<and> rot (rot t s) (26 - js_rem s 26) = t \<and>
      (\<forall>i<length t.
         (is_lower (t ! i) \<longrightarrow> uint (rot t s ! i) = 97 + (uint (t ! i) - 97 + s) mod 26) \<and>
         (is_upper (t ! i) \<longrightarrow> uint (rot t s ! i) = 65 + (uint (t ! i) - 65 + s) mod 26))"
    if s: "- (2 ^ 53) \<le> s" "s \<le> 2 ^ 53 - 25"
  proof -
    have m: "0 \<le> s mod 26" "s mod 26 < 26" by simp_all
    have r: "- 26 < js_rem s 26" "js_rem s 26 < 26" by (rule js_rem_26)+
    have "(s + (26 - s mod 26)) mod 26 = 0" by presburger
    moreover have "- (2 ^ 53) \<le> 26 - s mod 26" "26 - s mod 26 \<le> 2 ^ 53 - 25"
      using m by simp_all
    ultimately have 1: "rot (rot t s) (26 - s mod 26) = t"
      using s by (intro rot_inverse_gen)
    have "s + (26 - js_rem s 26) = (s - js_rem s 26) + 26" by simp
    then have "(s + (26 - js_rem s 26)) mod 26 = (s - js_rem s 26) mod 26"
      by (metis mod_add_self2)
    also have "\<dots> = (s mod 26 - js_rem s 26 mod 26) mod 26" by (simp add: mod_diff_eq)
    also have "\<dots> = 0" by (simp add: js_rem_26(1))
    finally have "(s + (26 - js_rem s 26)) mod 26 = 0" .
    moreover have "- (2 ^ 53) \<le> 26 - js_rem s 26" "26 - js_rem s 26 \<le> 2 ^ 53 - 25"
      using r by simp_all
    ultimately have 2: "rot (rot t s) (26 - js_rem s 26) = t"
      using s by (intro rot_inverse_gen)
    have 3: "\<forall>i<length t.
         (is_lower (t ! i) \<longrightarrow> uint (rot t s ! i) = 97 + (uint (t ! i) - 97 + s) mod 26) \<and>
         (is_upper (t ! i) \<longrightarrow> uint (rot t s ! i) = 65 + (uint (t ! i) - 65 + s) mod 26)"
      using rot_unit_lower_exact(2)[OF s] rot_unit_upper_exact(2)[OF s] by (simp add: rot_map)
    from 1 2 3 show ?thesis by blast
  qed
  have z: "rot t 0 = t" by (simp add: rot_map rot_unit_zero map_idI)
  have 4: "rot (rot t 13) 13 = t" by (rule rot_inverse_gen) simp_all
  have 5: "length (rot t s) = length t" by (simp add: rot_map)
  have 6: "\<forall>i<length t.
      (is_lower (t ! i) \<longrightarrow> is_lower (rot t s ! i)) \<and>
      (is_upper (t ! i) \<longrightarrow> is_upper (rot t s ! i)) \<and>
      (\<not> is_lower (t ! i) \<and> \<not> is_upper (t ! i) \<longrightarrow> rot t s ! i = t ! i)"
    using rot_unit_lower rot_unit_upper rot_unit_other by (simp add: rot_map)
  from a z 4 5 6 show ?thesis by blast
qed

text \<open>The theorem at \<open>"Ab!"\<close> and shift 3, one position of each kind.\<close>

theorem rot_inverse_in_exact_range_witness:
  "- (2 ^ 53) \<le> (3::int) \<and> (3::int) \<le> 2 ^ 53 - 25 \<and>
   rot (rot (str ''Ab!'') 3) (26 - 3 mod 26) = str ''Ab!'' \<and>
   (1::nat) < length (str ''Ab!'') \<and> is_lower (str ''Ab!'' ! 1) \<and> is_lower (rot (str ''Ab!'') 3 ! 1) \<and>
   uint (rot (str ''Ab!'') 3 ! 1) = 97 + (uint (str ''Ab!'' ! 1) - 97 + 3) mod 26 \<and>
   is_upper (str ''Ab!'' ! 0) \<and> is_upper (rot (str ''Ab!'') 3 ! 0) \<and>
   uint (rot (str ''Ab!'') 3 ! 0) = 65 + (uint (str ''Ab!'' ! 0) - 65 + 3) mod 26 \<and>
   \<not> is_lower (str ''Ab!'' ! 2) \<and> \<not> is_upper (str ''Ab!'' ! 2) \<and> rot (str ''Ab!'') 3 ! 2 = str ''Ab!'' ! 2"
  using rot_inverse_in_exact_range [of 3 "str ''Ab!''"]
  by (simp add: str_def is_lower_def is_upper_def)

text \<open>
  C8, as stated for every integer shift, fails: at the shift \<open>2^53\<close>, a number value, the
  sum \<open>1 + 2^53\<close> for \<^verbatim>\<open>b\<close> is rounded to \<open>2^53\<close>, the sum for \<^verbatim>\<open>a\<close>, so \<^verbatim>\<open>"ab"\<close> becomes
  \<^verbatim>\<open>"gg"\<close>, and the shift \<open>26 - (2^53 mod 26) = 20\<close> takes that to \<^verbatim>\<open>"aa"\<close>.
\<close>

lemma rot_ab_limit: "rot (str ''ab'') (2 ^ 53) = str ''gg''"
  by (simp add: rot_map str_def rot_unit_def is_lower_def round_double_exact
      round_double_past_limit)

lemma rot_gg_20: "rot (str ''gg'') 20 = str ''aa''"
  by (simp add: rot_map str_def rot_unit_def is_lower_def round_double_exact)

theorem rot_inverse_counterexample:
  "rot (rot (str ''ab'') (2 ^ 53)) (26 - 2 ^ 53 mod 26) \<noteq> str ''ab''"
proof -
  have "26 - 2 ^ 53 mod 26 = (20::int)" by simp
  then have "rot (rot (str ''ab'') (2 ^ 53)) (26 - 2 ^ 53 mod 26) = str ''aa''"
    by (simp only: rot_ab_limit rot_gg_20)
  then show ?thesis by (simp add: str_def)
qed

text \<open>
  The range of the amended statement cannot be made larger: the law already fails at
  \<open>2^53 - 24\<close>, and at \<open>-2^53 - 2\<close>, the first number value below \<open>-2^53\<close>, where two letters
  are sent to one.
\<close>

lemma rot_exact_range_is_tight:
  "rot (str ''yz'') (2 ^ 53 - 24) = str ''gg''"
  "rot (str ''bc'') (- (2 ^ 53) - 2) = str ''uu''"
  by (simp_all add: rot_map str_def rot_unit_def is_lower_def round_double_exact
      round_double_past_limit round_double_def Let_def ulp_at_limit)

section \<open>Worked calls\<close>

lemma MORSE_table:
  "MORSE = [([65], [46, 45]), ([66], [45, 46, 46, 46]), ([67], [45, 46, 45, 46]),
  ([68], [45, 46, 46]), ([69], [46]), ([70], [46, 46, 45, 46]),
  ([71], [45, 45, 46]), ([72], [46, 46, 46, 46]), ([73], [46, 46]),
  ([74], [46, 45, 45, 45]), ([75], [45, 46, 45]), ([76], [46, 45, 46, 46]),
  ([77], [45, 45]), ([78], [45, 46]), ([79], [45, 45, 45]),
  ([80], [46, 45, 45, 46]), ([81], [45, 45, 46, 45]), ([82], [46, 45, 46]),
  ([83], [46, 46, 46]), ([84], [45]), ([85], [46, 46, 45]),
  ([86], [46, 46, 46, 45]), ([87], [46, 45, 45]), ([88], [45, 46, 46, 45]),
  ([89], [45, 46, 45, 45]), ([90], [45, 45, 46, 46]),
  ([48], [45, 45, 45, 45, 45]), ([49], [46, 45, 45, 45, 45]),
  ([50], [46, 46, 45, 45, 45]), ([51], [46, 46, 46, 45, 45]),
  ([52], [46, 46, 46, 46, 45]), ([53], [46, 46, 46, 46, 46]),
  ([54], [45, 46, 46, 46, 46]), ([55], [45, 45, 46, 46, 46]),
  ([56], [45, 45, 45, 46, 46]), ([57], [45, 45, 45, 45, 46]),
  ([46], [46, 45, 46, 45, 46, 45]), ([44], [45, 45, 46, 46, 45, 45]),
  ([63], [46, 46, 45, 45, 46, 46]), ([39], [46, 45, 45, 45, 45, 46]),
  ([33], [45, 46, 45, 46, 45, 45]), ([47], [45, 46, 46, 45, 46]),
  ([40], [45, 46, 45, 45, 46]), ([41], [45, 46, 45, 45, 46, 45]),
  ([38], [46, 45, 46, 46, 46]), ([58], [45, 45, 45, 46, 46, 46]),
  ([59], [45, 46, 45, 46, 45, 46]), ([61], [45, 46, 46, 46, 45]),
  ([43], [46, 45, 46, 45, 46]), ([45], [45, 46, 46, 46, 46, 45]),
  ([95], [46, 46, 45, 45, 46, 45]), ([34], [46, 45, 46, 46, 45, 46]),
  ([36], [46, 46, 46, 45, 46, 46, 45]), ([64], [46, 45, 45, 46, 45, 46])]"
  by (simp add: MORSE_def str_def)


lemma morse_example_str:
  "str ''... --- ... / .... . .-.. .--. -.-.--'' =
     [46, 46, 46, 32, 45, 45, 45, 32, 46, 46, 46, 32, 47, 32, 46, 46, 46, 46,
      32, 46, 32, 46, 45, 46, 46, 32, 46, 45, 45, 46, 32, 45, 46, 45, 46, 45, 45]"
  "str '' '' = [32]" "str '' / '' = [32, 47, 32]"
  "str ''SOS HELP!'' = [83, 79, 83, 32, 72, 69, 76, 80, 33]"
  "str ''sos help'' = [115, 111, 115, 32, 104, 101, 108, 112]"
  by (simp_all add: str_def)

lemma morse_example_cleaned:
  "normalizePunctuation
     [46, 46, 46, 32, 45, 45, 45, 32, 46, 46, 46, 32, 47, 32, 46, 46, 46, 46,
      32, 46, 32, 46, 45, 46, 46, 32, 46, 45, 45, 46, 32, 45, 46, 45, 46, 45, 45] =
     [46, 46, 46, 32, 45, 45, 45, 32, 46, 46, 46, 32, 47, 32, 46, 46, 46, 46,
      32, 46, 32, 46, 45, 46, 46, 32, 46, 45, 45, 46, 32, 45, 46, 45, 46, 45, 45]"
  by (simp add: normalizePunctuation_def trim_def is_space_def)

lemma morse_example_words:
  "split_regex [Literal [32, 47, 32], Slash_Padded, Spaces_From 3]
     [46, 46, 46, 32, 45, 45, 45, 32, 46, 46, 46, 32, 47, 32, 46, 46, 46, 46,
      32, 46, 32, 46, 45, 46, 46, 32, 46, 45, 45, 46, 32, 45, 46, 45, 46, 45, 45] =
     [[46, 46, 46, 32, 45, 45, 45, 32, 46, 46, 46],
      [46, 46, 46, 46, 32, 46, 32, 46, 45, 46, 46, 32, 46, 45, 45, 46, 32, 45, 46, 45, 46, 45, 45]]"
  by (simp add: split_regex_def is_space_def)

lemma morse_example_letters:
  "split_regex [Literal [32]] [46, 46, 46, 32, 45, 45, 45, 32, 46, 46, 46] =
     [[46, 46, 46], [45, 45, 45], [46, 46, 46]]"
  "split_regex [Literal [32]]
     [46, 46, 46, 46, 32, 46, 32, 46, 45, 46, 46, 32, 46, 45, 45, 46, 32, 45, 46, 45, 46, 45, 45] =
     [[46, 46, 46, 46], [46], [46, 45, 46, 46], [46, 45, 45, 46], [45, 46, 45, 46, 45, 45]]"
  by (simp_all add: split_regex_def)

lemma morse_example_lookup:
  "map (get_property REVMORSE)
     [[46, 46, 46], [45, 45, 45], [46, 46, 46, 46], [46], [46, 45, 46, 46], [46, 45, 45, 46],
      [45, 46, 45, 46, 45, 45]] =
     [Own [83], Own [79], Own [72], Own [69], Own [76], Own [80], Own [33]]"
  by (simp add: get_property_def REVMORSE_def MORSE_table)

lemma morse_example_decoded:
  "fromMorse p (str ''... --- ... / .... . .-.. .--. -.-.--'') (str '' '') (str '' / '') False =
     str ''SOS HELP!''"
  using morse_example_lookup
  by (simp add: fromMorse_def morse_example_str morse_example_cleaned esc_def is_syntax_char_def
      morse_example_words morse_example_letters)

text \<open>
  C4, as amended. Decoding \<^verbatim>\<open>"... --- ... / .... . .-.. .--. -.-.--"\<close> with letter
  separator \<^verbatim>\<open>" "\<close> and word separator \<^verbatim>\<open>" / "\<close>, not strict, gives \<^verbatim>\<open>"SOS HELP!"\<close>:
  the token \<^verbatim>\<open>-.-.--\<close> is in the table and decodes to the exclamation mark.
\<close>

theorem fromMorse_example:
  "fromMorse p (str ''... --- ... / .... . .-.. .--. -.-.--'') (str '' '') (str '' / '') False =
     str ''SOS HELP!''"
  by (rule morse_example_decoded)

text \<open>
  C4, as stated, fails: compared without regard to case, the decoded text is not
  \<^verbatim>\<open>"sos help"\<close>, because the exclamation mark is not dropped.
\<close>

theorem fromMorse_example_counterexample:
  "toUpperCase_ascii
     (fromMorse v8_proto_text (str ''... --- ... / .... . .-.. .--. -.-.--'') (str '' '')
        (str '' / '') False) \<noteq>
   toUpperCase_ascii (str ''sos help'')"
  by (simp add: morse_example_decoded) (simp add: morse_example_str toUpperCase_ascii_def)

lemma hex_abc: "hexToText (str ''ABC'') = str ''Invalid hex length''"
  by (simp add: hexToText_def str_def is_hex_digit_def)

lemma binary_two: "binaryToText (str ''2'') = []"
  by (simp add: binaryToText_def str_def trim_def is_space_def)

text \<open>
  C5, as amended. \<^verbatim>\<open>hexToText("ABC")\<close> returns the diagnostic \<^verbatim>\<open>"Invalid hex length"\<close>.
  \<^verbatim>\<open>binaryToText("2")\<close> throws nothing either, but what it returns is the empty string:
  the digit 2 is replaced by a separator, and no token is left.
\<close>

theorem malformed_input_results:
  "hexToText (str ''ABC'') = str ''Invalid hex length'' \<and> binaryToText (str ''2'') = []"
  by (simp add: hex_abc binary_two)

text \<open>
  C5, as stated, fails: the result of \<^verbatim>\<open>binaryToText("2")\<close> is not the diagnostic of
  \<^verbatim>\<open>binaryToText\<close>, and it has no character at all.
\<close>

theorem binaryToText_two_counterexample:
  "binaryToText (str ''2'') \<noteq> str ''Invalid binary sequence'' \<and>
   length (binaryToText (str ''2'')) = 0"
  by (simp add: binary_two) (simp add: str_def)

lemma decode_FF:
  "TextDecoder_decode False False [0xFF] = Inr [0xFFFD]"
  "TextDecoder_decode True False [0xFF] = Inl TypeError"
  by (simp_all add: TextDecoder_decode_def utf16_units_def)

text \<open>
  C6. \<^verbatim>\<open>hexToText("FF")\<close>: the digits are an even number, the byte \<open>FF\<close> is not UTF-8,
  and the result is the one character U+FFFD, not the diagnostic. The decoder is built
  without \<^verbatim>\<open>fatal\<close>; with it the call would throw and the \<^verbatim>\<open>catch\<close> would answer.
\<close>

theorem hexToText_FF:
  "hexToText (str ''FF'') = [0xFFFD] \<and>
   hexToText (str ''FF'') \<noteq> str ''Invalid hex sequence'' \<and>
   TextDecoder_decode True False [0xFF] = Inl TypeError"
proof -
  have "hex_pairs (filter is_hex_digit (str ''FF'')) = [0xFF]"
    by (simp add: str_def is_hex_digit_def parseInt_digits_def digit_value_def)
  moreover have "length (filter is_hex_digit (str ''FF'')) mod 2 = 0"
    by (simp add: str_def is_hex_digit_def)
  ultimately have "hexToText (str ''FF'') = [0xFFFD]"
    by (simp add: hexToText_def decode_FF)
  moreover have "[0xFFFD] \<noteq> str ''Invalid hex sequence''" by (simp add: str_def)
  ultimately show ?thesis by (simp add: decode_FF)
qed

lemma space_delimiter_pattern: "RegExp_new (str '' '' @ str ''+$'') = Returns [Many (Lit 0x20), End]"
  by (simp add: str_def is_syntax_char_def is_quantifier_start_def atom_of_def)

lemma emoji_bytes: "TextEncoder_encode [0xD83D, 0xDE00] = [0xF0, 0x9F, 0x98, 0x80]"
  by (simp add: TextEncoder_encode_def is_high_def is_low_def utf8_bytes_def)

lemma emoji_hex: "textToHex [0xD83D, 0xDE00] (str '' '') True 1 = Returns (str ''F0 9F 98 80'')"
  by (simp add: textToHex_def emoji_bytes space_delimiter_pattern js_rem_def)
     (simp add: str_def padStart_def toUpperCase_ascii_def upper_ascii_def digit_char_def toString_radix.simps)

lemma emoji_inspect:
  "inspectUnicode [0xD83D, 0xDE00] =
     [\<lparr>ch = [0xD83D, 0xDE00], dec = 128512, hex = str ''U+1F600''\<rparr>]"
  by (simp add: inspectUnicode_def is_high_def is_low_def str_def padStart_def
      toUpperCase_ascii_def upper_ascii_def digit_char_def toString_radix.simps)

text \<open>
  C9. \<^verbatim>\<open>textToHex\<close> of the emoji U+1F600 (the surrogate pair D83D DE00), with a space
  as delimiter, upper case and one byte per group, is \<^verbatim>\<open>"F0 9F 98 80"\<close>: the four UTF-8
  bytes as four pairs of digits separated by single spaces. \<^verbatim>\<open>inspectUnicode\<close> of the
  same string is one record, with the decimal code point 128512 and the label
  \<^verbatim>\<open>"U+1F600"\<close>.
\<close>

theorem emoji_bytes_and_scalar:
  "textToHex [0xD83D, 0xDE00] (str '' '') True 1 = Returns (str ''F0 9F 98 80'') \<and>
   inspectUnicode [0xD83D, 0xDE00] =
     [\<lparr>ch = [0xD83D, 0xDE00], dec = 128512, hex = str ''U+1F600''\<rparr>] \<and>
   length (inspectUnicode [0xD83D, 0xDE00]) = 1"
  by (simp add: emoji_hex emoji_inspect)

lemma hi_bytes: "TextEncoder_encode (str ''Hi!!'') = [0x48, 0x69, 0x21, 0x21]"
  by (simp add: TextEncoder_encode_def str_def is_high_def is_low_def utf8_bytes_def scalar_of_unit_def)

text \<open>
  C7. With two bytes per group the code puts the delimiter between all bytes and three
  delimiters at each group boundary, since it pushes the delimiter into \<^verbatim>\<open>parts\<close> and
  then joins \<^verbatim>\<open>parts\<close> with the delimiter again: \<^verbatim>\<open>textToHex("Hi!!", " ", true, 2)\<close> is
  \<^verbatim>\<open>"48 69   21 21"\<close>.
\<close>

theorem textToHex_two_per_group:
  "textToHex (str ''Hi!!'') (str '' '') True 2 = Returns (str ''48 69   21 21'')"
  by (simp add: textToHex_def hi_bytes space_delimiter_pattern js_rem_def)
     (simp add: str_def padStart_def toUpperCase_ascii_def upper_ascii_def digit_char_def toString_radix.simps)

text \<open>
  C3. Two encoders throw. \<^verbatim>\<open>urlEncode\<close> of a lone surrogate is a URIError of
  \<^verbatim>\<open>encodeURIComponent\<close>, which nothing catches, while \<^verbatim>\<open>textToBase64\<close> catches the same
  error and answers \<^verbatim>\<open>"Encoding error"\<close>. \<^verbatim>\<open>textToHex\<close> with the empty delimiter builds
  the pattern \<^verbatim>\<open>+$\<close>, a SyntaxError of \<^verbatim>\<open>new RegExp\<close>.
\<close>

theorem encoders_that_throw:
  "urlEncode [0xD800] = Throws URIError \<and>
   textToBase64 [0xD800] = str ''Encoding error'' \<and>
   textToHex (str ''Hi'') [] True 1 = Throws SyntaxError"
proof -
  have e: "encodeURIComponent [0xD800] = Inl URIError"
    by (simp add: uri_unreserved_def str_def is_low_def is_high_def)
  have r: "RegExp_new ([] @ str ''+$'') = Throws SyntaxError"
    by (simp add: str_def is_quantifier_start_def)
  show ?thesis using e r by (simp add: urlEncode_def textToBase64_def textToHex_def)
qed

lemma bom_bytes: "TextEncoder_encode [0xFEFF] = [0xEF, 0xBB, 0xBF]"
  by (simp add: TextEncoder_encode_def is_high_def is_low_def utf8_bytes_def scalar_of_unit_def)

lemma bom_hex: "textToHex [0xFEFF] (str '' '') True 1 = Returns (str ''EF BB BF'')"
  by (simp add: textToHex_def bom_bytes space_delimiter_pattern js_rem_def)
     (simp add: str_def padStart_def toUpperCase_ascii_def upper_ascii_def digit_char_def toString_radix.simps)

lemma bom_decoded: "TextDecoder_decode False False [0xEF, 0xBB, 0xBF] = Inr []"
  by (simp add: TextDecoder_decode_def)

lemma bom_text: "hexToText (str ''EF BB BF'') = []"
proof -
  have "filter is_hex_digit (str ''EF BB BF'') = [0x45, 0x46, 0x42, 0x42, 0x42, 0x46]"
    by (simp add: str_def is_hex_digit_def)
  moreover have "hex_pairs [0x45, 0x46, 0x42, 0x42, 0x42, 0x46] = [0xEF, 0xBB, 0xBF]"
    by (simp add: parseInt_digits_def digit_value_def)
  ultimately show ?thesis by (simp add: hexToText_def bom_decoded)
qed

lemma bom_escapes:
  "str ''%EF%BB%BF'' = [0x25, 0x45, 0x46, 0x25, 0x42, 0x42, 0x25, 0x42, 0x46]"
  "take_hex 2 [0x45, 0x46, 0x25, 0x42, 0x42, 0x25, 0x42, 0x46] =
     Some (0xEF, [0x25, 0x42, 0x42, 0x25, 0x42, 0x46])"
  "take_hex 2 [0x42, 0x42, 0x25, 0x42, 0x46] = Some (0xBB, [0x25, 0x42, 0x46])"
  "take_hex 2 [0x42, 0x46] = Some (0xBF, [])"
  by (simp_all add: str_def take_hex_def is_hex_digit_def parseInt_digits_def digit_value_def)

lemma bom_uri_encoded: "encodeURIComponent [0xFEFF] = Inr (str ''%EF%BB%BF'')"
  by (simp add: uri_unreserved_def is_low_def is_high_def utf8_bytes_def percent_byte_def
      str_def padStart_def toUpperCase_ascii_def upper_ascii_def digit_char_def toString_radix.simps)

lemma bom_continuation:
  "escape_values 2 [0x25, 0x42, 0x42, 0x25, 0x42, 0x46] = Some [0xBB, 0xBF]"
  by (subst numeral_2_eq_2) (simp add: bom_escapes)

lemma bom_uri_decoded: "decodeURIComponent (str ''%EF%BB%BF'') = Inr [0xFEFF]"
  by (simp add: bom_escapes leading_ones_def bom_continuation utf16_units_def)

lemma bom_base64: "base64ToText (textToBase64 [0xFEFF]) = [0xFEFF]"
proof -
  have une: "unescape (str ''%EF%BB%BF'') = [0xEF, 0xBB, 0xBF]"
    by (simp add: bom_escapes)
  have b: "btoa [0xEF, 0xBB, 0xBF] = Inr (str ''77u/'')"
    by (simp add: btoa_def base64_char_def str_def)
  have a: "atob (str ''77u/'') = Inr [0xEF, 0xBB, 0xBF]"
    by (simp add: atob_def str_def strip_padding_def is_ascii_whitespace_def
        is_base64_char_def base64_value_def)
  have es: "escape [0xEF, 0xBB, 0xBF] = str ''%EF%BB%BF''"
    by (simp add: escape_def escape_unit_def escape_unreserved_def
        str_def padStart_def toUpperCase_ascii_def upper_ascii_def digit_char_def toString_radix.simps)
  show ?thesis
    by (simp add: textToBase64_def base64ToText_def bom_uri_encoded une b a es bom_uri_decoded
        del: encodeURIComponent.simps decodeURIComponent.simps)
qed

text \<open>
  C1. The hex round trip loses a leading U+FEFF: \<^verbatim>\<open>textToHex\<close> writes its three bytes,
  and \<^verbatim>\<open>hexToText\<close> decodes them with \<^verbatim>\<open>new TextDecoder()\<close>, which leaves a leading
  byte order mark out of its result. The same text survives the Base64 and the URL round
  trip, which decode with \<^verbatim>\<open>decodeURIComponent\<close>.
\<close>

theorem hex_round_trip_drops_bom:
  "textToHex [0xFEFF] (str '' '') True 1 = Returns (str ''EF BB BF'') \<and>
   hexToText (str ''EF BB BF'') = [] \<and>
   base64ToText (textToBase64 [0xFEFF]) = [0xFEFF] \<and>
   urlEncode [0xFEFF] = Returns (str ''%EF%BB%BF'') \<and>
   urlDecode (str ''%EF%BB%BF'') = [0xFEFF]"
  by (simp add: bom_hex bom_text bom_base64 urlEncode_def urlDecode_def bom_uri_encoded
      bom_uri_decoded del: encodeURIComponent.simps decodeURIComponent.simps)

section \<open>The delimiter of textToHex as a pattern\<close>

lemma dot_delimiter_pattern: "RegExp_new (str ''.'' @ str ''+$'') = Returns [Many Dot, End]"
  by (simp add: str_def is_syntax_char_def is_quantifier_start_def atom_of_def)

lemma match_more_dot_end:
  "\<forall>c\<in>set s. \<not> is_line_terminator c \<Longrightarrow> match_more Dot [End] s = Some []"
  by (induction s) simp_all

lemma replace_first_dot_end:
  "\<forall>c\<in>set s. \<not> is_line_terminator c \<Longrightarrow> replace_first [Many Dot, End] [] s = []"
  by (cases s) (simp_all add: match_more_dot_end)

lemma terminator_values:
  "is_line_terminator c \<Longrightarrow> unat c = 10 \<or> unat c = 13 \<or> unat c = 8232 \<or> unat c = 8233"
  by (auto simp: is_line_terminator_def)

lemma digit_char_not_terminator: "d < 16 \<Longrightarrow> \<not> is_line_terminator (digit_char d)"
proof
  assume d: "d < 16" and t: "is_line_terminator (digit_char d)"
  have "unat (word_of_nat (48 + d) :: 16 word) = 48 + d"
    by (subst unat_of_nat) (use d in simp)
  moreover have "unat (word_of_nat (87 + d) :: 16 word) = 87 + d"
    by (subst unat_of_nat) (use d in simp)
  ultimately have "unat (digit_char d) = (if d < 10 then 48 + d else 87 + d)"
    unfolding digit_char_def by presburger
  then have "48 \<le> unat (digit_char d)" "unat (digit_char d) \<le> 102" using d by auto
  with terminator_values[OF t] show False by auto
qed

lemma toString_16_digits: "set (toString_radix 16 n) \<subseteq> digit_char ` {..<16}"
proof (induction n rule: less_induct)
  case (less n)
  show ?case
  proof (cases "n < 16")
    case True
    then show ?thesis by (subst toString_radix.simps) auto
  next
    case False
    then have "n div 16 < n" by simp
    from less.IH[OF this] have ih: "set (toString_radix 16 (n div 16)) \<subseteq> digit_char ` {..<16}" .
    have m: "n mod 16 \<in> {..<16}" by simp
    have "toString_radix 16 n = toString_radix 16 (n div 16) @ [digit_char (n mod 16)]"
      using False by (subst toString_radix.simps) simp
    then show ?thesis using ih m by (simp del: lessThan_iff)
  qed
qed

lemma upper_ascii_not_terminator:
  assumes "\<not> is_line_terminator c"
  shows "\<not> is_line_terminator (upper_ascii c)"
proof (cases "97 \<le> c \<and> c \<le> 122")
  case True
  then have "32 \<le> c" by (simp add: word_le_nat_alt)
  then have u: "unat (c - 32) = unat c - 32" by (simp add: unat_sub)
  from True have "65 \<le> unat (c - 32)" "unat (c - 32) \<le> 90"
    using u by (auto simp: word_le_nat_alt)
  then have "c - 32 \<noteq> 0xA" "c - 32 \<noteq> 0xD" "c - 32 \<noteq> 0x2028" "c - 32 \<noteq> 0x2029"
    by auto
  then show ?thesis using True by (simp add: upper_ascii_def is_line_terminator_def)
next
  case False
  then show ?thesis using assms by (auto simp: upper_ascii_def)
qed

lemma hex_pair_no_terminator:
  "\<forall>c\<in>set (padStart 2 0x30 (toString_radix 16 n)). \<not> is_line_terminator c"
  using toString_16_digits[of n] digit_char_not_terminator
  by (auto simp: padStart_def is_line_terminator_def)

lemma set_join: "set (join sep ps) \<subseteq> set sep \<union> \<Union> (set ` set ps)"
  by (induction sep ps rule: join.induct) auto

lemma hex_parts_no_terminator:
  "\<forall>c\<in>set delimiter. \<not> is_line_terminator c \<Longrightarrow>
   \<forall>p\<in>set (hex_parts delimiter u g i bs). \<forall>c\<in>set p. \<not> is_line_terminator c"
proof (induction bs arbitrary: i)
  case Nil
  then show ?case by simp
next
  case (Cons b bs)
  have h: "\<forall>c\<in>set (padStart 2 0x30 (toString_radix 16 (unat b))). \<not> is_line_terminator c"
    by (rule hex_pair_no_terminator)
  then have hu: "\<forall>c\<in>set (toUpperCase_ascii (padStart 2 0x30 (toString_radix 16 (unat b)))).
      \<not> is_line_terminator c"
    by (auto simp: toUpperCase_ascii_def upper_ascii_not_terminator)
  from Cons.IH[OF Cons.prems] have ih:
    "\<forall>p\<in>set (hex_parts delimiter u g (i + 1) bs). \<forall>c\<in>set p. \<not> is_line_terminator c" .
  show ?case using h hu ih Cons.prems by (auto simp: Let_def)
qed

lemma textToHex_dot: "textToHex t (str ''.'') u g = Returns []"
proof -
  have d: "\<forall>c\<in>set (str ''.''). \<not> is_line_terminator c"
    by (simp add: str_def is_line_terminator_def)
  let ?parts = "hex_parts (str ''.'') u g 0 (TextEncoder_encode t)"
  have "\<forall>c\<in>set (join (str ''.'') ?parts). \<not> is_line_terminator c"
    using set_join[of "str ''.''" ?parts] hex_parts_no_terminator[OF d, of u g 0 "TextEncoder_encode t"] d
    by blast
  then have "replace_first [Many Dot, End] [] (join (str ''.'') ?parts) = []"
    by (rule replace_first_dot_end)
  then show ?thesis by (simp add: textToHex_def dot_delimiter_pattern)
qed

lemma hi_dot_joined:
  "join (str ''.'') (hex_parts (str ''.'') True 1 0 (TextEncoder_encode (str ''Hi''))) = str ''48.69''"
  by (simp add: TextEncoder_encode_def str_def is_high_def is_low_def utf8_bytes_def scalar_of_unit_def
      js_rem_def padStart_def toUpperCase_ascii_def upper_ascii_def digit_char_def toString_radix.simps)

text \<open>
  C10. With the delimiter \<^verbatim>\<open>"."\<close> the pattern that \<^verbatim>\<open>textToHex\<close> builds to trim the end
  is the wildcard repeated up to the end of the string, and the result is the empty
  string for every text, either case and every group size, although the joined parts
  were a rendering with dots, such as \<^verbatim>\<open>"48.69"\<close> for \<^verbatim>\<open>"Hi"\<close>.
\<close>

theorem textToHex_dot_delimiter:
  "textToHex t (str ''.'') u g = Returns [] \<and>
   RegExp_new (str ''.'' @ str ''+$'') = Returns [Many Dot, End] \<and>
   join (str ''.'') (hex_parts (str ''.'') True 1 0 (TextEncoder_encode (str ''Hi''))) = str ''48.69''"
  by (simp add: textToHex_dot dot_delimiter_pattern hi_dot_joined)

section \<open>Morse round trip\<close>

subsection \<open>The table\<close>

lemma morse_codes_ok:
  "list_all (\<lambda>(k, v). v \<noteq> [] \<and> list_all (\<lambda>x. x = 0x2E \<or> x = 0x2D) v) MORSE"
  by (simp add: MORSE_table)

lemma morse_keys_ok:
  "list_all (\<lambda>(k, v). list_all (\<lambda>x. x < 0x80 \<and> x \<noteq> 0x20) k) MORSE"
  by (simp add: MORSE_table)

lemma morse_codes_distinct: "distinct (map snd MORSE)"
  by (simp add: MORSE_table)

lemma revmorse_lookup:
  assumes "(k, v) \<in> set MORSE"
  shows "get_property REVMORSE v = Own k"
proof -
  have d: "distinct (map fst REVMORSE)"
    using morse_codes_distinct by (simp add: REVMORSE_def rev_map[symmetric] comp_def case_prod_beta)
  have "(v, k) \<in> set REVMORSE" using assms by (force simp: REVMORSE_def)
  with d have "map_of REVMORSE v = Some k" by simp
  then show ?thesis by (simp add: get_property_def)
qed

text \<open>What the table says about a character that it contains.\<close>

lemma morse_entry:
  assumes "map_of MORSE [c] = Some v"
  shows "v \<noteq> []" "\<forall>x\<in>set v. x = 0x2E \<or> x = 0x2D" "c < 0x80" "c \<noteq> 0x20"
    "get_property REVMORSE v = Own [c]"
proof -
  from assms have m: "([c], v) \<in> set MORSE" by (rule map_of_SomeD)
  from m morse_codes_ok show "v \<noteq> []" "\<forall>x\<in>set v. x = 0x2E \<or> x = 0x2D"
    by (auto simp: list_all_iff)
  from m morse_keys_ok show "c < 0x80" "c \<noteq> 0x20"
    by (auto simp: list_all_iff)
  from m show "get_property REVMORSE v = Own [c]" by (rule revmorse_lookup)
qed

subsection \<open>Escaping a separator\<close>

lemma esc_Nil_iff: "esc s = [] \<longleftrightarrow> s = []"
  by (cases s) (simp_all add: esc_def)

lemma esc_Cons: "esc (c # cs) = (if is_syntax_char c then [0x5C, c] else [c]) @ esc cs"
  by (simp add: esc_def)

lemma backslash_is_syntax: "is_syntax_char 0x5C"
  by (simp add: is_syntax_char_def)

lemma pattern_literal_esc: "pattern_literal (esc s) = s"
proof (induction s)
  case Nil
  then show ?case by (simp add: esc_def)
next
  case (Cons c cs)
  show ?case
  proof (cases "is_syntax_char c")
    case True
    then show ?thesis using Cons.IH by (simp add: esc_Cons)
  next
    case False
    then have nb: "c \<noteq> 0x5C" using backslash_is_syntax by auto
    show ?thesis
    proof (cases "esc cs")
      case Nil
      then have "cs = []" by (simp add: esc_Nil_iff)
      then show ?thesis using False by (simp add: esc_def)
    next
      case (Cons d ds)
      then show ?thesis using False nb Cons.IH by (simp add: esc_Cons)
    qed
  qed
qed

subsection \<open>Splitting where the pattern does not match\<close>

lemma split_loop_skip:
  "\<forall>j<length xs. match_first re (drop j xs @ rest) = None \<Longrightarrow>
   split_loop re piece (xs @ rest) = split_loop re (piece @ xs) rest"
proof (induction xs arbitrary: piece)
  case Nil
  then show ?case by simp
next
  case (Cons x xs)
  have 0: "match_first re (x # xs @ rest) = None"
    using Cons.prems[rule_format, of 0] by simp
  have "\<forall>j<length xs. match_first re (drop j xs @ rest) = None"
  proof (intro allI impI)
    fix j assume "j < length xs"
    then show "match_first re (drop j xs @ rest) = None"
      using Cons.prems[rule_format, of "Suc j"] by simp
  qed
  from Cons.IH[OF this] have "split_loop re (piece @ [x]) (xs @ rest) = split_loop re ((piece @ [x]) @ xs) rest" .
  then show ?case using 0 by simp
qed

lemma split_loop_no_match:
  "\<forall>j<length s. match_first re (drop j s) = None \<Longrightarrow> split_loop re [] s = [s]"
  using split_loop_skip[of s re "[]" "[]"] by simp

lemma literal_head_mismatch:
  "l \<noteq> [] \<Longrightarrow> x \<notin> set l \<Longrightarrow> match_alternative (Literal l) (x # s) = None"
  by (cases l) auto

lemma literal_skip_block:
  assumes "sep \<noteq> []" "set p \<inter> set sep = {}"
  shows "\<forall>j<length p. match_first [Literal sep] (drop j p @ rest) = None"
proof (intro allI impI)
  fix j assume j: "j < length p"
  then obtain x r where d: "drop j p = x # r" by (cases "drop j p") auto
  then have "x \<in> set p" by (metis in_set_dropD list.set_intros(1))
  then have "x \<notin> set sep" using assms by auto
  then show "match_first [Literal sep] (drop j p @ rest) = None"
    using d assms(1) literal_head_mismatch[of sep x "r @ rest"] by simp
qed

lemma split_at_literal:
  "sep \<noteq> [] \<Longrightarrow> split_loop [Literal sep] piece (sep @ r) = piece # split_loop [Literal sep] [] r"
  by (cases sep) simp_all

text \<open>
  Splitting on a literal separator gives back the pieces that were joined with it, when
  no piece is empty or shares a unit with the separator.
\<close>

lemma split_letters:
  "sep \<noteq> [] \<Longrightarrow> \<forall>v\<in>set cs. v \<noteq> [] \<and> set v \<inter> set sep = {} \<Longrightarrow> cs \<noteq> [] \<Longrightarrow>
   split_loop [Literal sep] piece (join sep cs) = (piece @ hd cs) # tl cs"
proof (induction sep cs arbitrary: piece rule: join.induct)
  case (1 sep)
  then show ?case by simp
next
  case (2 sep p)
  then have "set p \<inter> set sep = {}" by simp
  from split_loop_skip[OF literal_skip_block[OF "2.prems"(1) this, of "[]"], of piece]
  show ?case by simp
next
  case (3 sep p q ps)
  then have p: "set p \<inter> set sep = {}" by simp
  have "split_loop [Literal sep] piece (join sep (p # q # ps)) =
        split_loop [Literal sep] (piece @ p) (sep @ join sep (q # ps))"
    using split_loop_skip[OF literal_skip_block[OF "3.prems"(1) p, of "sep @ join sep (q # ps)"], of piece]
    by simp
  also have "\<dots> = (piece @ p) # split_loop [Literal sep] [] (join sep (q # ps))"
    using "3.prems"(1) by (rule split_at_literal)
  also have "split_loop [Literal sep] [] (join sep (q # ps)) = ([] @ hd (q # ps)) # tl (q # ps)"
    using "3.prems" by (intro "3.IH") simp_all
  finally show ?case by simp
qed


subsection \<open>Joined signals\<close>

lemma join_Nil_iff: "\<forall>v\<in>set cs. v \<noteq> [] \<Longrightarrow> join sep cs = [] \<longleftrightarrow> cs = []"
  by (induction sep cs rule: join.induct) auto

lemma hd_join: "cs \<noteq> [] \<Longrightarrow> hd cs \<noteq> [] \<Longrightarrow> hd (join sep cs) = hd (hd cs)"
  by (induction sep cs rule: join.induct) auto

lemma last_join:
  "cs \<noteq> [] \<Longrightarrow> \<forall>v\<in>set cs. v \<noteq> [] \<Longrightarrow> last (join sep cs) = last (last cs)"
proof (induction sep cs rule: join.induct)
  case (3 sep p q ps)
  then have "join sep (q # ps) \<noteq> []" using join_Nil_iff[of "q # ps" sep] by simp
  then show ?case using 3 by simp
qed simp_all

lemma join_empty_separator: "join [] xs = concat xs"
  by (induction "[] :: jsstring" xs rule: join.induct) simp_all

lemma dropWhile_hd: "s \<noteq> [] \<Longrightarrow> \<not> P (hd s) \<Longrightarrow> dropWhile P s = s"
  by (cases s) simp_all

lemma trim_id: "s = [] \<or> (\<not> is_space (hd s) \<and> \<not> is_space (last s)) \<Longrightarrow> trim s = s"
proof (cases "s = []")
  case True
  then show ?thesis by (simp add: trim_def)
next
  case False
  assume "s = [] \<or> (\<not> is_space (hd s) \<and> \<not> is_space (last s))"
  with False have h: "\<not> is_space (hd s)" and l: "\<not> is_space (last s)" by auto
  have 1: "dropWhile is_space s = s" using False h by (rule dropWhile_hd)
  have "hd (rev s) = last s" using False by (simp add: hd_rev)
  then have 2: "dropWhile is_space (rev s) = rev s" using False l by (simp add: dropWhile_hd)
  show ?thesis by (simp add: trim_def 1 2)
qed

lemma takeWhile_append_stop: "\<not> P x \<Longrightarrow> takeWhile P (ys @ x # r) = takeWhile P ys"
  by (induction ys) simp_all

lemma runs_block:
  assumes "\<forall>x\<in>set p. \<not> is_space x" "\<forall>j. length (takeWhile is_space (drop j s)) < 3"
  shows "\<forall>j. length (takeWhile is_space (drop j (p @ s))) < 3"
proof
  fix j
  show "length (takeWhile is_space (drop j (p @ s))) < 3"
  proof (cases "j < length p")
    case True
    then obtain x r where d: "drop j p = x # r" by (cases "drop j p") auto
    then have "x \<in> set p" by (metis in_set_dropD list.set_intros(1))
    then have "\<not> is_space x" using assms(1) by simp
    then show ?thesis using True d by simp
  next
    case False
    then show ?thesis using assms(2) by simp
  qed
qed

lemma runs_sep:
  assumes "\<forall>j<length sep. length (takeWhile is_space (drop j sep)) < 3"
    "s \<noteq> []" "\<not> is_space (hd s)" "\<forall>j. length (takeWhile is_space (drop j s)) < 3"
  shows "\<forall>j. length (takeWhile is_space (drop j (sep @ s))) < 3"
proof
  fix j
  obtain x r where s: "s = x # r" using assms(2) by (cases s) auto
  show "length (takeWhile is_space (drop j (sep @ s))) < 3"
  proof (cases "j < length sep")
    case True
    have "takeWhile is_space (drop j sep @ x # r) = takeWhile is_space (drop j sep)"
      using assms(3) s by (intro takeWhile_append_stop) simp
    then show ?thesis using True assms(1) s by simp
  next
    case False
    then show ?thesis using assms(4) by simp
  qed
qed

lemma runs_join:
  "\<forall>j<length sep. length (takeWhile is_space (drop j sep)) < 3 \<Longrightarrow>
   \<forall>v\<in>set cs. v \<noteq> [] \<and> (\<forall>x\<in>set v. \<not> is_space x) \<Longrightarrow>
   \<forall>j. length (takeWhile is_space (drop j (join sep cs))) < 3"
proof (induction sep cs rule: join.induct)
  case (1 sep)
  then show ?case by simp
next
  case (2 sep p)
  then show ?case using runs_block[of p "[]"] by simp
next
  case (3 sep p q ps)
  let ?r = "join sep (q # ps)"
  have ih: "\<forall>j. length (takeWhile is_space (drop j ?r)) < 3" using 3 by simp
  have ne: "?r \<noteq> []" using "3.prems"(2) join_Nil_iff[of "q # ps" sep] by simp
  have "hd ?r = hd q" using "3.prems"(2) by (simp add: hd_join)
  then have h: "\<not> is_space (hd ?r)" using "3.prems"(2) by (cases q) auto
  have "\<forall>j. length (takeWhile is_space (drop j (sep @ ?r))) < 3"
    using "3.prems"(1) ne h ih by (rule runs_sep)
  moreover have "\<forall>x\<in>set p. \<not> is_space x" using "3.prems"(2) by simp
  ultimately have "\<forall>j. length (takeWhile is_space (drop j (p @ (sep @ ?r)))) < 3"
    using runs_block[of p "sep @ ?r"] by blast
  then show ?case by simp
qed

lemma literal_needs_units: "match_alternative (Literal l) s = Some n \<Longrightarrow> set l \<subseteq> set s"
  by (metis match_alternative.simps(1) option.distinct(1) set_take_subset)

lemma slash_needs_slash:
  assumes "match_alternative Slash_Padded s = Some n"
  shows "0x2F \<in> set s"
proof -
  from assms obtain r where "dropWhile is_space s = 0x2F # r"
    by (auto split: list.splits if_splits)
  then have "0x2F \<in> set (dropWhile is_space s)" by simp
  then show ?thesis by (rule set_dropWhileD)
qed


subsection \<open>Encoding a text of table characters\<close>

lemma split_unit_absent: "sep \<notin> set s \<Longrightarrow> split_unit sep s = [s]"
  by (induction s) auto

lemma spread_singletons: "\<forall>c\<in>set s. \<not> is_high c \<Longrightarrow> spread s = map (\<lambda>c. [c]) s"
  by (induction s rule: spread.induct) auto

lemma ascii_not_high: "c < 0x80 \<Longrightarrow> \<not> is_high c"
  by (simp add: is_high_def word_le_nat_alt word_less_nat_alt)

lemma toMorse_table_text:
  assumes "\<forall>c\<in>set (toUpperCase uc t). map_of MORSE [c] \<noteq> None"
  shows "toMorse uc t L W False =
    join L (map (\<lambda>c. case map_of MORSE [c] of None \<Rightarrow> [] | Some code \<Rightarrow> code) (toUpperCase uc t))"
proof -
  let ?U = "toUpperCase uc t"
  let ?enc = "\<lambda>c. case map_of MORSE [c] of None \<Rightarrow> [] | Some code \<Rightarrow> code"
  have k: "c < 0x80 \<and> c \<noteq> 0x20 \<and> ?enc c \<noteq> []" if "c \<in> set ?U" for c
  proof -
    from that assms obtain v where v: "map_of MORSE [c] = Some v" by auto
    from morse_entry(1,3,4)[OF v] v show ?thesis by simp
  qed
  have 1: "split_unit 0x20 ?U = [?U]" using k by (intro split_unit_absent) auto
  have 2: "spread ?U = map (\<lambda>c. [c]) ?U" using k ascii_not_high by (intro spread_singletons) auto
  have 3: "filter (\<lambda>s. s \<noteq> []) (map ?enc ?U) = map ?enc ?U" using k by (intro filter_True) auto
  have "map (\<lambda>c. case map_of MORSE c of None \<Rightarrow> if False then c else [] | Some code \<Rightarrow> code)
          (map (\<lambda>c. [c]) ?U) = map ?enc ?U"
    by simp
  then show ?thesis unfolding toMorse_def by (simp only: 1 2 3 list.map join.simps)
qed

subsection \<open>Decoding joined signals\<close>

lemma normalize_clean:
  assumes "\<forall>x\<in>set s. x \<notin> set [0x2013, 0x2014, 0x2212, 0xB7, 0x2022, 0x2219, 0x200B, 0x200C, 0x200D, 0xFEFF]"
  shows "normalizePunctuation s = trim s"
proof -
  have 1: "map (\<lambda>c. if c \<in> set [0x2013, 0x2014, 0x2212] then 0x2D else c) s = s"
    using assms by (intro map_idI) auto
  have 2: "map (\<lambda>c. if c \<in> set [0xB7, 0x2022, 0x2219] then 0x2E else c) s = s"
    using assms by (intro map_idI) auto
  have 3: "filter (\<lambda>c. c \<notin> set [0x200B, 0x200C, 0x200D, 0xFEFF]) s = s"
    using assms by (intro filter_True) auto
  show ?thesis unfolding normalizePunctuation_def by (simp only: 1 2 3)
qed

lemma signal_units:
  "\<not> is_space 0x2E" "\<not> is_space 0x2D"
  "(0x2E :: 16 word) \<notin> set [0x2013, 0x2014, 0x2212, 0xB7, 0x2022, 0x2219, 0x200B, 0x200C, 0x200D, 0xFEFF]"
  "(0x2D :: 16 word) \<notin> set [0x2013, 0x2014, 0x2212, 0xB7, 0x2022, 0x2219, 0x200B, 0x200C, 0x200D, 0xFEFF]"
  "str ''.-/'' = [0x2E, 0x2D, 0x2F]" "str ''.-'' = [0x2E, 0x2D]" "str '' '' = [0x20]"
  by (simp_all add: is_space_def str_def)

lemma fromMorse_joined_signals:
  assumes cs: "\<forall>v\<in>set cs. v \<noteq> [] \<and> (\<forall>x\<in>set v. x = 0x2E \<or> x = 0x2D)"
    and L: "L \<noteq> []"
      "\<forall>c\<in>set L. c \<notin> set (str ''.-/'') \<and>
         c \<notin> set [0x2013, 0x2014, 0x2212, 0xB7, 0x2022, 0x2219, 0x200B, 0x200C, 0x200D, 0xFEFF]"
      "\<forall>j<length L. length (takeWhile is_space (drop j L)) < 3"
    and W: "W = [] \<or> (\<exists>c\<in>set W. c \<notin> set L \<and> c \<notin> set (str ''.-''))"
  shows "fromMorse p (join L cs) L W strict =
    concat (map (\<lambda>sym. case get_property REVMORSE sym of
                          Own t \<Rightarrow> t
                        | Inherited \<Rightarrow> p sym
                        | Undefined \<Rightarrow> if strict then [0xFFFD] else []) cs)"
proof -
  let ?E = "join L cs"
  define ws where "ws = (if W \<noteq> [] then [Literal W] else []) @ [Slash_Padded, Spaces_From 3]"
  define dec where "dec = (\<lambda>sym. case get_property REVMORSE sym of
                          Own t \<Rightarrow> t
                        | Inherited \<Rightarrow> p sym
                        | Undefined \<Rightarrow> if strict then [0xFFFD] else [])"
  have units: "x \<in> set L \<or> x = 0x2E \<or> x = 0x2D" if "x \<in> set ?E" for x
    using that set_join[of L cs] cs by auto
  have nonspace: "\<forall>v\<in>set cs. v \<noteq> [] \<and> (\<forall>x\<in>set v. \<not> is_space x)"
    using cs signal_units(1,2) by auto
  have disjoint: "\<forall>v\<in>set cs. v \<noteq> [] \<and> set v \<inter> set L = {}"
    using cs L(2) by (auto simp: signal_units)
  have ne: "\<forall>v\<in>set cs. v \<noteq> []" using cs by simp
  have "\<forall>x\<in>set ?E. x \<notin> set [0x2013, 0x2014, 0x2212, 0xB7, 0x2022, 0x2219, 0x200B, 0x200C, 0x200D, 0xFEFF]"
    using units L(2) signal_units(3,4) by blast
  then have n: "normalizePunctuation ?E = trim ?E" by (rule normalize_clean)
  have "?E = [] \<or> (\<not> is_space (hd ?E) \<and> \<not> is_space (last ?E))"
  proof (cases "cs = []")
    case True
    then show ?thesis by simp
  next
    case False
    then have "hd cs \<in> set cs" "last cs \<in> set cs" by simp_all
    then have a: "hd cs \<noteq> []" "last cs \<noteq> []" "\<not> is_space (hd (hd cs))" "\<not> is_space (last (last cs))"
      using nonspace by auto
    have "hd ?E = hd (hd cs)" using False a(1) by (rule hd_join)
    moreover have "last ?E = last (last cs)" using False ne by (rule last_join)
    ultimately show ?thesis using a by simp
  qed
  then have "trim ?E = ?E" by (rule trim_id)
  with n have cleaned: "normalizePunctuation ?E = ?E" by simp
  have runs: "\<forall>j. length (takeWhile is_space (drop j ?E)) < 3"
    using L(3) nonspace by (rule runs_join)
  have nomatch: "match_first ws (drop j ?E) = None" for j
  proof -
    have sub: "set (drop j ?E) \<subseteq> set ?E" by (rule set_drop_subset)
    have 1: "match_alternative (Literal W) (drop j ?E) = None" if "W \<noteq> []"
    proof (rule ccontr)
      assume "match_alternative (Literal W) (drop j ?E) \<noteq> None"
      then obtain n where "match_alternative (Literal W) (drop j ?E) = Some n" by auto
      then have "set W \<subseteq> set ?E" using literal_needs_units sub by blast
      moreover from W that obtain c where "c \<in> set W" "c \<notin> set L" "c \<noteq> 0x2E" "c \<noteq> 0x2D"
        by (auto simp: signal_units)
      ultimately show False using units by blast
    qed
    have 2: "match_alternative Slash_Padded (drop j ?E) = None"
    proof (rule ccontr)
      assume "match_alternative Slash_Padded (drop j ?E) \<noteq> None"
      then obtain n where "match_alternative Slash_Padded (drop j ?E) = Some n" by auto
      then have "0x2F \<in> set ?E" using slash_needs_slash sub by blast
      then show False using units[of "0x2F"] L(2) by (auto simp: signal_units)
    qed
    have 3: "match_alternative (Spaces_From 3) (drop j ?E) = None"
      using runs by (simp add: Let_def not_le)
    show ?thesis using 1 2 3 by (simp add: ws_def)
  qed
  have start: "fromMorse p ?E L W strict =
      join (str '' '') (map (\<lambda>w. join [] (map dec (filter (\<lambda>sym. sym \<noteq> [])
          (split_regex [Literal L] w)))) (filter (\<lambda>w. w \<noteq> []) (split_regex ws ?E)))"
    using L(1)
    by (simp add: fromMorse_def Let_def cleaned esc_Nil_iff pattern_literal_esc ws_def dec_def)
  show ?thesis
  proof (cases "cs = []")
    case True
    have "filter (\<lambda>w. w \<noteq> []) (split_regex ws []) = []" by (simp add: split_regex_def)
    then show ?thesis using True start by (simp add: dec_def)
  next
    case False
    then have e: "?E \<noteq> []" using join_Nil_iff[OF ne, of L] by simp
    have "split_loop ws [] ?E = [?E]" using nomatch by (intro split_loop_no_match) blast
    then have words: "filter (\<lambda>w. w \<noteq> []) (split_regex ws ?E) = [?E]"
      using e by (simp add: split_regex_def)
    have "split_loop [Literal L] [] ?E = ([] @ hd cs) # tl cs"
      using L(1) disjoint False by (rule split_letters)
    then have "split_regex [Literal L] ?E = cs" using e False by (simp add: split_regex_def)
    then have letters: "filter (\<lambda>sym. sym \<noteq> []) (split_regex [Literal L] ?E) = cs"
      using ne by (simp add: filter_True)
    show ?thesis
      unfolding start words by (simp add: letters join_empty_separator dec_def)
  qed
qed


text \<open>
  C2, as amended. Let the upper-cased text consist of characters of the Morse table. Let
  the letter separator \<open>L\<close> be non-empty, contain none of \<^verbatim>\<open>.\<close>, \<^verbatim>\<open>-\<close>, \<^verbatim>\<open>/\<close>, none of
  the characters that \<^verbatim>\<open>normalizePunctuation\<close> rewrites or removes, and no run of three
  white-space characters. Let the word separator \<open>W\<close> be empty or contain a character
  that is neither \<^verbatim>\<open>.\<close> nor \<^verbatim>\<open>-\<close> nor a character of \<open>L\<close>. Then decoding the encoded text
  with the same separators gives the upper-cased text. The default separators \<^verbatim>\<open>" "\<close> and
  \<^verbatim>\<open>" / "\<close> are of this kind.
\<close>

theorem morse_round_trip:
  assumes t: "\<forall>c\<in>set (toUpperCase uc t). map_of MORSE [c] \<noteq> None"
    and L: "L \<noteq> []"
      "\<forall>c\<in>set L. c \<notin> set (str ''.-/'') \<and>
         c \<notin> set [0x2013, 0x2014, 0x2212, 0xB7, 0x2022, 0x2219, 0x200B, 0x200C, 0x200D, 0xFEFF]"
      "\<forall>j<length L. length (takeWhile is_space (drop j L)) < 3"
    and W: "W = [] \<or> (\<exists>c\<in>set W. c \<notin> set L \<and> c \<notin> set (str ''.-''))"
  shows "fromMorse p (toMorse uc t L W False) L W False = toUpperCase uc t"
proof -
  let ?U = "toUpperCase uc t"
  let ?enc = "\<lambda>c. case map_of MORSE [c] of None \<Rightarrow> [] | Some code \<Rightarrow> code"
  have e: "?enc c \<noteq> [] \<and> (\<forall>x\<in>set (?enc c). x = 0x2E \<or> x = 0x2D) \<and>
      get_property REVMORSE (?enc c) = Own [c]" if "c \<in> set ?U" for c
  proof -
    from that t obtain v where v: "map_of MORSE [c] = Some v" by auto
    from morse_entry(1,2,5)[OF v] v show ?thesis by simp
  qed
  have cs: "\<forall>v\<in>set (map ?enc ?U). v \<noteq> [] \<and> (\<forall>x\<in>set v. x = 0x2E \<or> x = 0x2D)"
    using e by auto
  have "fromMorse p (toMorse uc t L W False) L W False = fromMorse p (join L (map ?enc ?U)) L W False"
    using t by (simp only: toMorse_table_text)
  also have "\<dots> = concat (map (\<lambda>sym. case get_property REVMORSE sym of
                          Own t \<Rightarrow> t
                        | Inherited \<Rightarrow> p sym
                        | Undefined \<Rightarrow> if False then [0xFFFD] else []) (map ?enc ?U))"
    using cs L W by (rule fromMorse_joined_signals)
  also have "\<dots> = concat (map (\<lambda>c. [c]) ?U)"
    using e by (simp add: comp_def cong: map_cong)
  also have "\<dots> = ?U" by (induction ?U) simp_all
  finally show ?thesis .
qed


lemma upper_sos: "toUpperCase utf16_units (str ''sos'') = str ''SOS''"
  by (simp add: toUpperCase_def upper_code_point_def upper_ascii_def str_def is_high_def)

text \<open>The theorem at the text \<^verbatim>\<open>"sos"\<close> with the default separators.\<close>

theorem morse_round_trip_witness:
  "fromMorse v8_proto_text (toMorse utf16_units (str ''sos'') (str '' '') (str '' / '') False)
     (str '' '') (str '' / '') False = str ''SOS''"
proof -
  have t: "\<forall>c\<in>set (toUpperCase utf16_units (str ''sos'')). map_of MORSE [c] \<noteq> None"
    by (simp add: upper_sos) (simp add: str_def MORSE_table)
  have L: "str '' '' \<noteq> []"
    "\<forall>c\<in>set (str '' ''). c \<notin> set (str ''.-/'') \<and>
       c \<notin> set [0x2013, 0x2014, 0x2212, 0xB7, 0x2022, 0x2219, 0x200B, 0x200C, 0x200D, 0xFEFF]"
    "\<forall>j<length (str '' ''). length (takeWhile is_space (drop j (str '' ''))) < 3"
    by (simp_all add: str_def)
  have W: "str '' / '' = [] \<or> (\<exists>c\<in>set (str '' / ''). c \<notin> set (str '' '') \<and> c \<notin> set (str ''.-''))"
    by (simp add: str_def)
  show ?thesis using morse_round_trip[OF t L W, of v8_proto_text] by (simp add: upper_sos)
qed



lemma ee_upper: "toUpperCase utf16_units (str ''EE'') = [69, 69]"
  by (simp add: toUpperCase_def upper_code_point_def upper_ascii_def str_def is_high_def)

lemma ee_cleaned: "normalizePunctuation [46, 32, 46] = [46, 32, 46]"
  by (simp add: normalizePunctuation_def trim_def is_space_def)

lemma ee_letters: "split_regex [Literal [32]] [46] = [[46]]" by (simp add: split_regex_def)

lemma ee_lookup: "get_property REVMORSE [46] = Own [69]"
  by (simp add: get_property_def REVMORSE_def MORSE_table)


lemma ee_words: "split_regex [Literal [32], Slash_Padded, Spaces_From 3] [46, 32, 46] = [[46], [46]]"
  by (simp add: split_regex_def is_space_def)



lemma ee_parts:
  "split_unit 0x20 [69, 69] = [[69, 69]]" "spread [69, 69] = [[69], [69]]"
  "map_of MORSE [69] = Some [46]"
  by (simp_all add: is_high_def MORSE_table)

lemma ee_encoded: "toMorse utf16_units (str ''EE'') [32] [32] False = [46, 32, 46]"
  by (simp add: toMorse_def ee_upper ee_parts del: spread.simps split_unit.simps)


lemma ee_decoded: "fromMorse v8_proto_text [46, 32, 46] [32] [32] False = [69, 32, 69]"
  by (simp add: fromMorse_def ee_cleaned esc_def is_syntax_char_def ee_words ee_letters ee_lookup signal_units(7)
      del: split_loop.simps)


text \<open>
  C2, as stated, fails: with a space for both separators, which are non-empty and free of
  a slash, \<^verbatim>\<open>"EE"\<close> is encoded as \<^verbatim>\<open>". ."\<close> and decoded as the two words \<^verbatim>\<open>"E E"\<close>.
\<close>

theorem morse_round_trip_counterexample:
  "fromMorse v8_proto_text (toMorse utf16_units (str ''EE'') (str '' '') (str '' '') False)
     (str '' '') (str '' '') False \<noteq> toUpperCase utf16_units (str ''EE'')"
  by (simp add: signal_units(7) ee_encoded ee_decoded ee_upper)

section \<open>Facts that the model relies on\<close>

text \<open>An element of \<^verbatim>\<open>[...s]\<close> has one or two units, and they make up \<open>s\<close> again.\<close>

lemma spread_nonempty: "[] \<notin> set (spread s)"
  by (induction s rule: spread.induct) auto

lemma spread_short: "\<forall>c\<in>set (spread s). length c \<le> 2"
  by (induction s rule: spread.induct) auto

lemma concat_spread: "concat (spread s) = s"
  by (induction s rule: spread.induct) auto

text \<open>
  No name that \<^verbatim>\<open>Object.prototype\<close> provides is as short as an element of \<^verbatim>\<open>[...word]\<close>,
  so \<^verbatim>\<open>MORSE[ch]\<close> is a lookup in the table alone.
\<close>

lemma prototype_names_long: "\<forall>n\<in>set object_prototype_names. 7 \<le> length n"
  by (simp add: object_prototype_names_def str_def)

lemma morse_key_not_inherited: "c \<in> set (spread word) \<Longrightarrow> c \<notin> set object_prototype_names"
  using spread_short[of word] prototype_names_long by fastforce

text \<open>
  On a string of ASCII units \<^verbatim>\<open>toUpperCase\<close> does not consult the table of the host, and
  the two digits that \<^verbatim>\<open>textToHex\<close> writes for a byte are ASCII.
\<close>

lemma toUpperCase_on_ascii:
  assumes "\<forall>c\<in>set s. c < 0x80"
  shows "toUpperCase uc s = toUpperCase_ascii s"
proof -
  have h: "\<forall>c\<in>set s. \<not> is_high c" using assms ascii_not_high by blast
  have u: "upper_code_point uc [c] = [upper_ascii c]" if "c \<in> set s" for c
  proof -
    from that assms have "unat c < 128" by (auto simp: word_less_nat_alt)
    then show ?thesis by (simp add: upper_code_point_def)
  qed
  have "map (upper_code_point uc) (map (\<lambda>c. [c]) s) = map (\<lambda>c. [upper_ascii c]) s"
    using u by (simp add: comp_def cong: map_cong)
  then have "concat (map (upper_code_point uc) (spread s)) = concat (map (\<lambda>c. [upper_ascii c]) s)"
    by (simp only: spread_singletons[OF h])
  also have "\<dots> = map upper_ascii s" by (induction s) simp_all
  finally show ?thesis by (simp add: toUpperCase_def toUpperCase_ascii_def)
qed

lemma digit_char_ascii: "d < 16 \<Longrightarrow> digit_char d < 0x80"
proof -
  assume d: "d < 16"
  have "unat (word_of_nat (48 + d) :: 16 word) = 48 + d"
    by (subst unat_of_nat) (use d in simp)
  moreover have "unat (word_of_nat (87 + d) :: 16 word) = 87 + d"
    by (subst unat_of_nat) (use d in simp)
  ultimately have "unat (digit_char d) = (if d < 10 then 48 + d else 87 + d)"
    unfolding digit_char_def by presburger
  then have "unat (digit_char d) < 128" using d by auto
  then show ?thesis by (simp add: word_less_nat_alt)
qed

lemma hex_pair_ascii: "\<forall>c\<in>set (padStart 2 0x30 (toString_radix 16 n)). c < 0x80"
  using toString_16_digits[of n] digit_char_ascii by (auto simp: padStart_def)

section \<open>The binary round trip\<close>

text \<open>
  The binary codec works on code points and keeps every string, lone surrogates included:
  \<^verbatim>\<open>binaryToText(textToBinary(t, 8, " ", upper))\<close> is \<open>t\<close>.
\<close>

lemma binary_digit_chars: "digit_char 0 = 0x30" "digit_char (Suc 0) = 0x31"
  "digit_value 0x30 = 0" "digit_value 0x31 = 1"
  by (simp_all add: digit_char_def digit_value_def)

lemma parseInt_snoc: "parseInt_digits r (xs @ [c]) = parseInt_digits r xs * r + digit_value c"
  by (simp add: parseInt_digits_def)

lemma below_two: "(n::nat) < 2 \<Longrightarrow> n = 0 \<or> n = Suc 0"
  by arith

lemma toString_2_inverse: "parseInt_digits 2 (toString_radix 2 n) = n"
proof (induction n rule: less_induct)
  case (less n)
  show ?case
  proof (cases "n < 2")
    case True
    then have "n = 0 \<or> n = Suc 0" by (rule below_two)
    then show ?thesis
      by (subst toString_radix.simps) (auto simp: parseInt_digits_def binary_digit_chars)
  next
    case False
    then have "n div 2 < n" by simp
    from less.IH[OF this] have ih: "parseInt_digits 2 (toString_radix 2 (n div 2)) = n div 2" .
    have m: "n mod 2 = 0 \<or> n mod 2 = Suc 0" by (intro below_two) simp
    have "toString_radix 2 n = toString_radix 2 (n div 2) @ [digit_char (n mod 2)]"
      using False by (subst toString_radix.simps) simp
    then have "parseInt_digits 2 (toString_radix 2 n) = n div 2 * 2 + digit_value (digit_char (n mod 2))"
      by (simp add: parseInt_snoc ih)
    also have "digit_value (digit_char (n mod 2)) = n mod 2"
      using m by (auto simp: binary_digit_chars)
    finally show ?thesis by simp
  qed
qed

lemma toString_2_digits: "toString_radix 2 n \<noteq> [] \<and> set (toString_radix 2 n) \<subseteq> {0x30, 0x31}"
proof (induction n rule: less_induct)
  case (less n)
  show ?case
  proof (cases "n < 2")
    case True
    then have "n = 0 \<or> n = Suc 0" by (rule below_two)
    then show ?thesis by (subst (1 2) toString_radix.simps) (auto simp: binary_digit_chars)
  next
    case False
    then have "n div 2 < n" by simp
    from less.IH[OF this] have ih: "set (toString_radix 2 (n div 2)) \<subseteq> {0x30, 0x31}" by simp
    have m: "n mod 2 = 0 \<or> n mod 2 = Suc 0" by (intro below_two) simp
    have "toString_radix 2 n = toString_radix 2 (n div 2) @ [digit_char (n mod 2)]"
      using False by (subst toString_radix.simps) simp
    then show ?thesis using ih m by (auto simp: binary_digit_chars)
  qed
qed

lemma parseInt_leading_zeros: "parseInt_digits 2 (replicate k 0x30 @ s) = parseInt_digits 2 s"
  by (induction k) (simp_all add: parseInt_digits_def binary_digit_chars)

text \<open>One group of \<^verbatim>\<open>textToBinary\<close>: the digits of the code point, padded.\<close>

lemma binary_group:
  "parseInt_digits 2 (padStart k 0x30 (toString_radix 2 n)) = n"
  "padStart k 0x30 (toString_radix 2 n) \<noteq> []"
  "set (padStart k 0x30 (toString_radix 2 n)) \<subseteq> {0x30, 0x31}"
  using toString_2_digits[of n]
  by (auto simp: padStart_def parseInt_leading_zeros toString_2_inverse)

text \<open>An element of \<^verbatim>\<open>[...t]\<close> is made again from its code point.\<close>

lemma spread_elements:
  "e \<in> set (spread s) \<Longrightarrow> (\<exists>c. e = [c]) \<or> (\<exists>c d. e = [c, d] \<and> is_high c \<and> is_low d)"
  by (induction s rule: spread.induct) (auto split: if_splits)

lemma fromCodePoint_unit: "fromCodePoint (codePointAt0 [c]) = Inr [c]"
proof -
  have "unat c < 2 ^ LENGTH(16)" by (rule unsigned_less)
  then have "unat c < 65536" by simp
  then show ?thesis by (simp add: fromCodePoint_def)
qed

lemma fromCodePoint_pair:
  assumes "is_high c" "is_low d"
  shows "fromCodePoint (codePointAt0 [c, d]) = Inr [c, d]"
proof -
  from assms have c: "0xD800 \<le> unat c" "unat c \<le> 0xDBFF" and d: "0xDC00 \<le> unat d" "unat d \<le> 0xDFFF"
    by (simp_all add: is_high_def is_low_def word_le_nat_alt)
  define h where "h = unat c - 0xD800"
  define l where "l = unat d - 0xDC00"
  have hl: "h < 0x400" "l < 0x400" "unat c = 0xD800 + h" "unat d = 0xDC00 + l"
    using c d by (simp_all add: h_def l_def)
  have cp: "codePointAt0 [c, d] = h * 0x400 + l + 0x10000"
    using assms by (simp add: h_def l_def)
  have "of_nat (0xD800 + (h * 0x400 + l + 0x10000 - 0x10000) div 0x400) = (of_nat (unat c) :: 16 word)"
    using hl by simp
  moreover have "of_nat (0xDC00 + (h * 0x400 + l + 0x10000 - 0x10000) mod 0x400) = (of_nat (unat d) :: 16 word)"
    using hl by simp
  moreover have "\<not> h * 0x400 + l + 0x10000 > 0x10FFFF" "\<not> h * 0x400 + l + 0x10000 \<le> 0xFFFF"
    using hl by simp_all
  ultimately show ?thesis unfolding cp fromCodePoint_def by simp
qed

lemma fromCodePoint_spread:
  "e \<in> set (spread s) \<Longrightarrow> fromCodePoint (codePointAt0 e) = Inr e"
  using spread_elements[of e s] fromCodePoint_unit fromCodePoint_pair by auto

lemma map_throwing_all:
  "\<forall>x\<in>set xs. f x = Inr (g x) \<Longrightarrow> map_throwing f xs = Inr (map g xs)"
  by (induction xs) simp_all

text \<open>Groups joined by single spaces are what the decoder's cleaning leaves alone.\<close>

lemma split_unit_append:
  "sep \<notin> set p \<Longrightarrow> split_unit sep (p @ sep # r) = p # split_unit sep r"
  by (induction p) (auto split: list.splits)

lemma split_unit_join:
  "cs \<noteq> [] \<Longrightarrow> \<forall>v\<in>set cs. sep \<notin> set v \<Longrightarrow> split_unit sep (join [sep] cs) = cs"
proof (induction "[sep]" cs rule: join.induct)
  case 1
  then show ?case by simp
next
  case (2 p)
  then show ?case by (simp add: split_unit_absent)
next
  case (3 p q ps)
  then show ?case by (simp add: split_unit_append)
qed

lemma collapse_block:
  "\<forall>x\<in>set p. \<not> is_space x \<Longrightarrow> collapse_spaces (p @ s) = p @ collapse_spaces s"
  by (induction p) simp_all

lemma collapse_join:
  "\<forall>v\<in>set cs. v \<noteq> [] \<and> (\<forall>x\<in>set v. \<not> is_space x) \<Longrightarrow>
   collapse_spaces (join [0x20] cs) = join [0x20] cs"
proof (induction "[0x20 :: 16 word]" cs rule: join.induct)
  case 1
  then show ?case by simp
next
  case (2 p)
  then show ?case using collapse_block[of p "[]"] by simp
next
  case (3 p q ps)
  let ?r = "join [0x20] (q # ps)"
  have ih: "collapse_spaces ?r = ?r" using 3 by simp
  have ne: "?r \<noteq> []" using "3.prems" join_Nil_iff[of "q # ps" "[0x20]"] by simp
  have "hd ?r = hd q" using "3.prems" by (simp add: hd_join)
  then have h: "\<not> is_space (hd ?r)" using "3.prems" by (cases q) auto
  have "dropWhile is_space ?r = ?r" using ne h by (rule dropWhile_hd)
  then have "collapse_spaces (0x20 # ?r) = 0x20 # ?r" using ih by (simp add: is_space_def)
  moreover have "\<forall>x\<in>set p. \<not> is_space x" using "3.prems" by simp
  ultimately have "collapse_spaces (p @ 0x20 # ?r) = p @ 0x20 # ?r"
    using collapse_block[of p "0x20 # ?r"] by simp
  then show ?case by simp
qed


lemma map_throwing_map: "map_throwing f (map g xs) = map_throwing (\<lambda>x. f (g x)) xs"
  by (induction xs) (auto split: sum.splits)

lemma binary_digits_not_space: "x = 0x30 \<or> x = 0x31 \<Longrightarrow> \<not> is_space x"
  by (auto simp: is_space_def)

lemma spread_Nil_iff: "spread s = [] \<longleftrightarrow> s = []"
  using concat_spread[of s] by (cases s) auto

lemma binary_round_trip: "binaryToText (textToBinary uc t 8 (str '' '') upper) = t"
proof -
  define grp where "grp = (\<lambda>c. let code = codePointAt0 c; bin = toString_radix 2 code
      in padStart (nat ((int (length bin) + 8 - 1) div 8 * 8)) 0x30 bin)"
  define cs where "cs = map grp (spread t)"
  let ?out = "join [0x20] cs"
  have grp: "parseInt_digits 2 (grp c) = codePointAt0 c" "grp c \<noteq> []" "set (grp c) \<subseteq> {0x30, 0x31}" for c
    unfolding grp_def Let_def by (rule binary_group)+
  have digits: "\<forall>v\<in>set cs. v \<noteq> [] \<and> set v \<subseteq> {0x30, 0x31}"
    using grp(2,3) by (auto simp: cs_def)
  have nonspace: "\<forall>v\<in>set cs. v \<noteq> [] \<and> (\<forall>x\<in>set v. \<not> is_space x)"
  proof (intro ballI conjI)
    fix v assume v: "v \<in> set cs"
    then show "v \<noteq> []" using digits by simp
    fix x assume "x \<in> set v"
    with v digits have "x = 0x30 \<or> x = 0x31" by auto
    then show "\<not> is_space x" by (rule binary_digits_not_space)
  qed
  have nosep: "\<forall>v\<in>set cs. 0x20 \<notin> set v"
  proof
    fix v assume "v \<in> set cs"
    with digits have "set v \<subseteq> {0x30, 0x31}" by simp
    moreover have "(0x20 :: 16 word) \<notin> {0x30, 0x31}" by simp
    ultimately show "0x20 \<notin> set v" by blast
  qed
  have ne: "\<forall>v\<in>set cs. v \<noteq> []" using digits by simp
  have units: "x = 0x30 \<or> x = 0x31 \<or> x = 0x20" if "x \<in> set ?out" for x
    using that set_join[of "[0x20]" cs] digits by auto
  have plain: "textToBinary uc t 8 (str '' '') False = ?out"
    by (simp add: textToBinary_def grp_def cs_def signal_units(7) Let_def)
  have "\<forall>c\<in>set ?out. c < 0x80" using units by fastforce
  then have "toUpperCase uc ?out = toUpperCase_ascii ?out" by (rule toUpperCase_on_ascii)
  also have "\<dots> = ?out"
    unfolding toUpperCase_ascii_def
  proof (rule map_idI)
    fix x assume "x \<in> set ?out"
    then have "x = 0x30 \<or> x = 0x31 \<or> x = 0x20" by (rule units)
    then show "upper_ascii x = x" by (auto simp: upper_ascii_def)
  qed
  finally have "textToBinary uc t 8 (str '' '') True = ?out"
    by (simp add: textToBinary_def grp_def cs_def signal_units(7) Let_def)
  with plain have enc: "textToBinary uc t 8 (str '' '') upper = ?out" by (cases upper) simp_all
  have "?out = [] \<or> (\<not> is_space (hd ?out) \<and> \<not> is_space (last ?out))"
  proof (cases "cs = []")
    case True
    then show ?thesis by simp
  next
    case False
    then have "hd cs \<in> set cs" "last cs \<in> set cs" by simp_all
    then have a: "hd cs \<noteq> []" "\<not> is_space (hd (hd cs))" "\<not> is_space (last (last cs))"
      using nonspace by auto
    have "hd ?out = hd (hd cs)" using False a(1) by (rule hd_join)
    moreover have "last ?out = last (last cs)" using False ne by (rule last_join)
    ultimately show ?thesis using a by simp
  qed
  then have trimmed: "trim ?out = ?out" by (rule trim_id)
  have kept: "map (\<lambda>c. if c = 0x30 \<or> c = 0x31 \<or> is_space c then c else 0x20) ?out = ?out"
  proof (rule map_idI)
    fix x assume "x \<in> set ?out"
    then have "x = 0x30 \<or> x = 0x31 \<or> x = 0x20" by (rule units)
    then show "(if x = 0x30 \<or> x = 0x31 \<or> is_space x then x else 0x20) = x" by auto
  qed
  have collapsed: "collapse_spaces ?out = ?out" using nonspace by (rule collapse_join)
  have cleaned: "collapse_spaces
      (map (\<lambda>c. if c = 0x30 \<or> c = 0x31 \<or> is_space c then c else 0x20) (trim ?out)) = ?out"
    by (simp only: trimmed kept collapsed)
  show ?thesis
  proof (cases "t = []")
    case True
    then have "?out = []" by (simp add: cs_def)
    then show ?thesis using True unfolding enc binaryToText_def cleaned by simp
  next
    case False
    then have c: "cs \<noteq> []" by (simp add: cs_def spread_Nil_iff)
    then have o: "?out \<noteq> []" using join_Nil_iff[OF ne, of "[0x20]"] by simp
    have "split_unit 0x20 ?out = cs" using c nosep by (rule split_unit_join)
    then have tokens: "filter (\<lambda>b. b \<noteq> []) (split_unit 0x20 ?out) = cs"
      using ne by (simp add: filter_True)
    have "map_throwing (\<lambda>b. fromCodePoint (parseInt_digits 2 b)) cs =
        map_throwing (\<lambda>e. fromCodePoint (parseInt_digits 2 (grp e))) (spread t)"
      unfolding cs_def by (rule map_throwing_map)
    also have "\<dots> = Inr (map (\<lambda>e. e) (spread t))"
      by (rule map_throwing_all) (simp add: grp(1) fromCodePoint_spread)
    finally have chars: "map_throwing (\<lambda>b. fromCodePoint (parseInt_digits 2 b)) cs = Inr (spread t)"
      by simp
    show ?thesis
      unfolding enc binaryToText_def cleaned
      using o by (simp add: Let_def tokens chars join_empty_separator concat_spread)
  qed
qed

end
